theory Spec2Isabelle
  imports Main "HOL-Library.Sublist" "HOL-Library.Multiset"
begin

section \<open>JavaScript strings\<close>

text \<open>
  Strings are lists of 8-bit code units, so the model covers texts whose characters lie in
  U+0000..U+00FF. The functions below are the String.prototype methods the server calls.
\<close>

definition BS :: char where
  "BS = CHR 0x5C"

definition isSpace :: "char \<Rightarrow> bool" where
  \<comment> \<open>WhiteSpace and LineTerminator code units: what \<open>\s\<close> matches and \<open>trim\<close> strips.\<close>
  "isSpace c = (let n = (of_char c :: nat) in (9 \<le> n \<and> n \<le> 13) \<or> n = 32 \<or> n = 160)"

definition isDigit :: "char \<Rightarrow> bool" where
  "isDigit c = (let n = (of_char c :: nat) in 48 \<le> n \<and> n \<le> 57)"

definition isWordChar :: "char \<Rightarrow> bool" where
  \<comment> \<open>\<open>\w\<close>: ASCII letters, digits and the underscore.\<close>
  "isWordChar c = (let n = (of_char c :: nat) in
     (97 \<le> n \<and> n \<le> 122) \<or> (65 \<le> n \<and> n \<le> 90) \<or> (48 \<le> n \<and> n \<le> 57) \<or> n = 95)"

definition isLineTerminator :: "char \<Rightarrow> bool" where
  "isLineTerminator c = (c = CHR 0x0A \<or> c = CHR 0x0D)"

definition startsWith :: "string \<Rightarrow> string \<Rightarrow> bool" where
  "startsWith s p = prefix p s"

definition endsWith :: "string \<Rightarrow> string \<Rightarrow> bool" where
  "endsWith s p = suffix p s"

definition includes_str :: "string \<Rightarrow> string \<Rightarrow> bool" where
  "includes_str s p = sublist p s"

definition trim :: "string \<Rightarrow> string" where
  "trim s = rev (dropWhile isSpace (rev (dropWhile isSpace s)))"

fun split :: "char \<Rightarrow> string \<Rightarrow> string list" where
  "split sep [] = [[]]"
| "split sep (c # s) =
     (if c = sep then [] # split sep s
      else (case split sep s of [] \<Rightarrow> [[c]] | x # xs \<Rightarrow> (c # x) # xs))"

fun join :: "string \<Rightarrow> string list \<Rightarrow> string" where
  "join sep [] = []"
| "join sep [x] = x"
| "join sep (x # y # ys) = x @ sep @ join sep (y # ys)"

definition substring :: "nat \<Rightarrow> nat \<Rightarrow> string \<Rightarrow> string" where
  "substring i j s = take (j - i) (drop i s)"

definition truthy :: "string option \<Rightarrow> bool" where
  \<comment> \<open>A value that is \<open>null\<close>, \<open>undefined\<close> or the empty string is falsy.\<close>
  "truthy v = (case v of None \<Rightarrow> False | Some s \<Rightarrow> s \<noteq> [])"

fun showNat :: "nat \<Rightarrow> string" where
  "showNat n = (if n < 10 then [char_of (48 + n)] else showNat (n div 10) @ [char_of (48 + n mod 10)])"




text \<open>
  \<open>Array.prototype.sort\<close> with a comparator is stable; it is modelled by insertion from the
  right, which keeps the earlier of two elements the comparator does not separate in front.
\<close>

fun insertBy :: "('a \<Rightarrow> 'a \<Rightarrow> int) \<Rightarrow> 'a \<Rightarrow> 'a list \<Rightarrow> 'a list" where
  "insertBy cmp x [] = [x]"
| "insertBy cmp x (y # ys) = (if cmp x y \<le> 0 then x # y # ys else y # insertBy cmp x ys)"

definition sortBy :: "('a \<Rightarrow> 'a \<Rightarrow> int) \<Rightarrow> 'a list \<Rightarrow> 'a list" where
  "sortBy cmp xs = foldr (insertBy cmp) xs []"

section \<open>Regular expressions\<close>

text \<open>
  The server compiles patterns with \<open>new RegExp\<close> and uses regular-expression literals. The
  model is a backtracking matcher over the abstract syntax below: for a pattern and a
  position it lists every way the pattern can match there, in the order in which the
  engine tries them, so the head of the list is the match the engine reports. The parser
  covers characters, \<open>.\<close>, \<open>^\<close>, \<open>$\<close>, groups, alternatives, the greedy quantifiers
  \<open>*\<close>, \<open>+\<close> and \<open>?\<close>, character classes without ranges and the escapes of the patterns in
  the server; a pattern outside this fragment is answered with \<open>NotModelled\<close>.
\<close>

definition canonicalize :: "bool \<Rightarrow> char \<Rightarrow> char" where
  \<comment> \<open>With the \<open>i\<close> flag a code unit is compared through its upper-case form.\<close>
  "canonicalize ic c = (if \<not> ic then c else
     (let n = (of_char c :: nat) in
      if (97 \<le> n \<and> n \<le> 122) \<or> (224 \<le> n \<and> n \<le> 254 \<and> n \<noteq> 247)
      then char_of (n - 32) else c))"

datatype citem = CChar char | CSpace | CWord | CDigit

datatype rexp = Eps | Lit char | Dot | Cls bool "citem list" | Bol | Eol | WordB bool
  | Seq rexp rexp | Alt rexp rexp | Opt rexp | Star rexp | Grp nat rexp

definition Plus :: "rexp \<Rightarrow> rexp" where
  "Plus a = Seq a (Star a)"

type_synonym captures = "(nat \<times> string) list"

text \<open>A matcher state: the code unit before the position, the rest of the input, the groups.\<close>

type_synonym mstate = "char option \<times> string \<times> captures"

fun citem_has :: "bool \<Rightarrow> char \<Rightarrow> citem \<Rightarrow> bool" where
  "citem_has ic d (CChar c) = (canonicalize ic c = canonicalize ic d)"
| "citem_has ic d CSpace = isSpace d"
| "citem_has ic d CWord = isWordChar d"
| "citem_has ic d CDigit = isDigit d"

fun groups_of :: "rexp \<Rightarrow> nat list" where
  "groups_of (Seq a b) = groups_of a @ groups_of b"
| "groups_of (Alt a b) = groups_of a @ groups_of b"
| "groups_of (Opt a) = groups_of a"
| "groups_of (Star a) = groups_of a"
| "groups_of (Grp n a) = n # groups_of a"
| "groups_of _ = []"

definition clear_caps :: "nat list \<Rightarrow> captures \<Rightarrow> captures" where
  "clear_caps ns cs = filter (\<lambda>(n, v). n \<notin> set ns) cs"

definition atWordChar :: "char option \<Rightarrow> bool" where
  "atWordChar p = (case p of None \<Rightarrow> False | Some c \<Rightarrow> isWordChar c)"

text \<open>
  A quantified atom forgets its groups at the start of every iteration, and an iteration
  that consumes nothing is rejected once the minimum is reached.
\<close>

fun ends :: "bool \<Rightarrow> rexp \<Rightarrow> mstate \<Rightarrow> mstate list" where
  "ends ic Eps st = [st]"
| "ends ic (Lit c) (p, s, cs) = (case s of [] \<Rightarrow> []
     | d # ds \<Rightarrow> if canonicalize ic c = canonicalize ic d then [(Some d, ds, cs)] else [])"
| "ends ic Dot (p, s, cs) = (case s of [] \<Rightarrow> []
     | d # ds \<Rightarrow> if isLineTerminator d then [] else [(Some d, ds, cs)])"
| "ends ic (Cls neg its) (p, s, cs) = (case s of [] \<Rightarrow> []
     | d # ds \<Rightarrow> if list_ex (citem_has ic d) its \<noteq> neg then [(Some d, ds, cs)] else [])"
| "ends ic Bol (p, s, cs) = (if p = None then [(p, s, cs)] else [])"
| "ends ic Eol (p, s, cs) = (if s = [] then [(p, s, cs)] else [])"
| "ends ic (WordB pos) (p, s, cs) =
     (if (atWordChar p \<noteq> atWordChar (case s of [] \<Rightarrow> None | d # ds \<Rightarrow> Some d)) = pos
      then [(p, s, cs)] else [])"
| "ends ic (Seq a b) st = concat (map (ends ic b) (ends ic a st))"
| "ends ic (Alt a b) st = ends ic a st @ ends ic b st"
| "ends ic (Opt a) (p, s, cs) =
     filter (\<lambda>(p', s', cs'). length s' < length s) (ends ic a (p, s, clear_caps (groups_of a) cs))
     @ [(p, s, cs)]"
| "ends ic (Star a) (p, s, cs) =
     concat (map (\<lambda>(p', s', cs'). if length s' < length s then ends ic (Star a) (p', s', cs') else [])
                 (ends ic a (p, s, clear_caps (groups_of a) cs)))
     @ [(p, s, cs)]"
| "ends ic (Grp n a) (p, s, cs) =
     map (\<lambda>(p', s', cs'). (p', s', (n, take (length s - length s') s) # cs')) (ends ic a (p, s, cs))"

text \<open>The leftmost match at or behind a position: the start moves right until one is found.\<close>

fun search_from :: "bool \<Rightarrow> rexp \<Rightarrow> char option \<Rightarrow> string \<Rightarrow> mstate option" where
  "search_from ic r p s = (case ends ic r (p, s, []) of
       m # ms \<Rightarrow> Some m
     | [] \<Rightarrow> (case s of [] \<Rightarrow> None | d # ds \<Rightarrow> search_from ic r (Some d) ds))"

subsection \<open>Parsing a pattern\<close>

datatype regex_error = SyntaxError | NotModelled

text \<open>
  An open group: its finished alternatives and the terms of the current one, both newest
  first, and its capture index when it captures.
\<close>

type_synonym frame = "rexp list \<times> rexp list \<times> nat option"

fun mk_seq :: "rexp list \<Rightarrow> rexp" where
  "mk_seq [] = Eps"
| "mk_seq [a] = a"
| "mk_seq (a # as) = Seq a (mk_seq as)"

fun mk_alt :: "rexp list \<Rightarrow> rexp" where
  "mk_alt [] = Eps"
| "mk_alt [a] = a"
| "mk_alt (a # as) = Alt a (mk_alt as)"

fun close_frame :: "frame \<Rightarrow> rexp" where
  "close_frame (alts, cur, g) =
     (let body = mk_alt (rev (mk_seq (rev cur) # alts))
      in case g of None \<Rightarrow> body | Some n \<Rightarrow> Grp n body)"

definition control_escape :: "char \<Rightarrow> char option" where
  "control_escape e =
     (if e = CHR ''t'' then Some (CHR 0x09) else if e = CHR ''n'' then Some (CHR 0x0A)
      else if e = CHR ''v'' then Some (CHR 0x0B) else if e = CHR ''f'' then Some (CHR 0x0C)
      else if e = CHR ''r'' then Some (CHR 0x0D) else None)"

definition unmodelled_escape :: "char \<Rightarrow> bool" where
  \<comment> \<open>Back references and the control, hexadecimal, Unicode and named escapes.\<close>
  "unmodelled_escape e = (isDigit e \<or> e \<in> set ''ckxu'')"

definition atom_escape :: "char \<Rightarrow> regex_error + rexp" where
  "atom_escape e =
     (if e = CHR ''s'' then Inr (Cls False [CSpace]) else if e = CHR ''S'' then Inr (Cls True [CSpace])
      else if e = CHR ''w'' then Inr (Cls False [CWord]) else if e = CHR ''W'' then Inr (Cls True [CWord])
      else if e = CHR ''d'' then Inr (Cls False [CDigit]) else if e = CHR ''D'' then Inr (Cls True [CDigit])
      else if e = CHR ''b'' then Inr (WordB True) else if e = CHR ''B'' then Inr (WordB False)
      else if unmodelled_escape e then Inl NotModelled
      else case control_escape e of Some c \<Rightarrow> Inr (Lit c) | None \<Rightarrow> Inr (Lit e))"

definition class_escape :: "char \<Rightarrow> regex_error + citem" where
  "class_escape e =
     (if e = CHR ''s'' then Inr CSpace else if e = CHR ''w'' then Inr CWord
      else if e = CHR ''d'' then Inr CDigit
      else if e \<in> set ''SWD'' \<or> unmodelled_escape e then Inl NotModelled
      else if e = CHR ''b'' then Inr (CChar (CHR 0x08))
      else case control_escape e of Some c \<Rightarrow> Inr (CChar c) | None \<Rightarrow> Inr (CChar e))"

definition range_follows :: "string \<Rightarrow> bool" where
  "range_follows s = (case s of c # d # _ \<Rightarrow> c = CHR ''-'' \<and> d \<noteq> CHR '']'' | _ \<Rightarrow> False)"

text \<open>
  The members of a class, read behind its opening bracket, and the number of code units
  read, the closing bracket included.
\<close>

fun class_items :: "string \<Rightarrow> regex_error + (citem list \<times> nat)" where
  "class_items [] = Inl SyntaxError"
| "class_items (c # s) =
     (if c = CHR '']'' then Inr ([], 1)
      else if c = BS then
        (case s of [] \<Rightarrow> Inl SyntaxError
         | e # s' \<Rightarrow>
            (case class_escape e of Inl err \<Rightarrow> Inl err
             | Inr it \<Rightarrow> if range_follows s' then Inl NotModelled
                 else (case class_items s' of Inl err \<Rightarrow> Inl err
                       | Inr (its, k) \<Rightarrow> Inr (it # its, k + 2))))
      else if range_follows s then Inl NotModelled
      else (case class_items s of Inl err \<Rightarrow> Inl err
            | Inr (its, k) \<Rightarrow> Inr (CChar c # its, k + 1)))"

definition parse_class :: "string \<Rightarrow> regex_error + (bool \<times> citem list \<times> nat)" where
  "parse_class s =
     (case s of
        c # s' \<Rightarrow>
          if c = CHR ''^''
          then (case class_items s' of Inl err \<Rightarrow> Inl err | Inr (its, k) \<Rightarrow> Inr (True, its, k + 1))
          else (case class_items s of Inl err \<Rightarrow> Inl err | Inr (its, k) \<Rightarrow> Inr (False, its, k))
      | [] \<Rightarrow> Inl SyntaxError)"

definition quantify :: "char \<Rightarrow> rexp \<Rightarrow> rexp" where
  "quantify q a = (if q = CHR ''*'' then Star a else if q = CHR ''+'' then Plus a else Opt a)"

fun push_term :: "rexp \<Rightarrow> frame list \<Rightarrow> frame list" where
  "push_term a ((alts, cur, g) # fs) = (alts, a # cur, g) # fs"
| "push_term a [] = []"

text \<open>
  One step of the parser at the code unit \<open>c\<close>, with \<open>s\<close> behind it: the open groups, the
  number of capture groups so far, whether the last term may take a quantifier, and the
  number of code units of \<open>s\<close> the step has read as well.
\<close>

definition parse_step ::
  "frame list \<Rightarrow> nat \<Rightarrow> bool \<Rightarrow> char \<Rightarrow> string \<Rightarrow> regex_error + (frame list \<times> nat \<times> bool \<times> nat)" where
  "parse_step fs n q c s =
     (if c = CHR ''('' then
        (case s of
           c1 # s1 \<Rightarrow>
             if c1 = CHR ''?'' then
               (case s1 of c2 # s2 \<Rightarrow>
                    if c2 = CHR '':'' then Inr (([], [], None) # fs, n, False, 2) else Inl NotModelled
                | [] \<Rightarrow> Inl SyntaxError)
             else Inr (([], [], Some (Suc n)) # fs, Suc n, False, 0)
         | [] \<Rightarrow> Inl SyntaxError)
      else if c = CHR '')'' then
        (case fs of f # f' # rest \<Rightarrow> Inr (push_term (close_frame f) (f' # rest), n, True, 0)
         | _ \<Rightarrow> Inl SyntaxError)
      else if c = CHR ''|'' then
        (case fs of (alts, cur, g) # rest \<Rightarrow> Inr ((mk_seq (rev cur) # alts, [], g) # rest, n, False, 0)
         | [] \<Rightarrow> Inl SyntaxError)
      else if c = CHR ''*'' \<or> c = CHR ''+'' \<or> c = CHR ''?'' then
        (if \<not> q then Inl SyntaxError
         else if (case s of c1 # _ \<Rightarrow> c1 = CHR ''?'' | [] \<Rightarrow> False) then Inl NotModelled
         else (case fs of (alts, a # cur, g) # rest \<Rightarrow>
                   Inr ((alts, quantify c a # cur, g) # rest, n, False, 0)
               | _ \<Rightarrow> Inl SyntaxError))
      else if c = CHR ''{'' then Inl NotModelled
      else if c = CHR ''.'' then Inr (push_term Dot fs, n, True, 0)
      else if c = CHR ''^'' then Inr (push_term Bol fs, n, False, 0)
      else if c = CHR ''$'' then Inr (push_term Eol fs, n, False, 0)
      else if c = CHR ''['' then
        (case parse_class s of Inl err \<Rightarrow> Inl err
         | Inr (neg, its, k) \<Rightarrow> Inr (push_term (Cls neg its) fs, n, True, k))
      else if c = BS then
        (case s of [] \<Rightarrow> Inl SyntaxError
         | e # s' \<Rightarrow> (case atom_escape e of Inl err \<Rightarrow> Inl err
              | Inr a \<Rightarrow> Inr (push_term a fs, n, a \<noteq> WordB True \<and> a \<noteq> WordB False, 1)))
      else Inr (push_term (Lit c) fs, n, True, 0))"

function parse_re :: "frame list \<Rightarrow> nat \<Rightarrow> bool \<Rightarrow> string \<Rightarrow> regex_error + rexp" where
  "parse_re fs n q [] = (case fs of [f] \<Rightarrow> Inr (close_frame f) | _ \<Rightarrow> Inl SyntaxError)"
| "parse_re fs n q (c # s) =
     (case parse_step fs n q c s of Inl err \<Rightarrow> Inl err
      | Inr (fs', n', q', k) \<Rightarrow> parse_re fs' n' q' (drop k s))"
  by pat_completeness auto
termination
  by (relation "measure (\<lambda>(fs, n, q, s). length s)") auto

definition regex_parse :: "string \<Rightarrow> regex_error + rexp" where
  "regex_parse pat = parse_re [([], [], None)] 0 False pat"

subsection \<open>RegExp objects\<close>

record regexp =
  ast :: rexp
  ignoreCase :: bool
  global :: bool
  lastIndex :: nat

definition newRegExp :: "string \<Rightarrow> string \<Rightarrow> regex_error + regexp" where
  "newRegExp pat flags =
     (case regex_parse pat of Inl err \<Rightarrow> Inl err
      | Inr r \<Rightarrow> Inr \<lparr>ast = r, ignoreCase = CHR ''i'' \<in> set flags, global = CHR ''g'' \<in> set flags,
                      lastIndex = 0\<rparr>)"

definition literal :: "rexp \<Rightarrow> regexp" where
  \<comment> \<open>A regular-expression literal without flags.\<close>
  "literal r = \<lparr>ast = r, ignoreCase = False, global = False, lastIndex = 0\<rparr>"

text \<open>
  \<open>RegExpBuiltinExec\<close>: a global expression starts at its \<open>lastIndex\<close> and stores the end of
  the match there, or 0 when nothing matches; the others start at 0 and leave it alone.
\<close>

definition regexp_exec :: "regexp \<Rightarrow> string \<Rightarrow> mstate option \<times> regexp" where
  "regexp_exec re s =
     (let i = (if global re then lastIndex re else 0)
      in if length s < i then (None, if global re then re\<lparr>lastIndex := 0\<rparr> else re)
         else (case search_from (ignoreCase re) (ast re)
                      (if i = 0 then None else Some (s ! (i - 1))) (drop i s) of
                 None \<Rightarrow> (None, if global re then re\<lparr>lastIndex := 0\<rparr> else re)
               | Some (p, r, cs) \<Rightarrow>
                   (Some (p, r, cs), if global re then re\<lparr>lastIndex := length s - length r\<rparr> else re)))"

definition regexp_test :: "regexp \<Rightarrow> string \<Rightarrow> bool \<times> regexp" where
  "regexp_test re s = (case regexp_exec re s of (m, re') \<Rightarrow> (m \<noteq> None, re'))"

definition str_match :: "string \<Rightarrow> rexp \<Rightarrow> (nat \<rightharpoonup> string) option" where
  \<comment> \<open>\<open>line.match(/.../)\<close>: the groups of the first match; a group that took no part is undefined.\<close>
  "str_match s r = (case fst (regexp_exec (literal r) s) of
       None \<Rightarrow> None | Some (p, rest, cs) \<Rightarrow> Some (map_of cs))"

section \<open>Paths\<close>

text \<open>
  The POSIX functions of the \<open>path\<close> module. \<open>cwd\<close> stands for the absolute path that
  \<open>process.cwd()\<close> returns; it is consulted only when the project root is relative.
\<close>

definition norm_step :: "bool \<Rightarrow> string list \<Rightarrow> string \<Rightarrow> string list" where
  "norm_step aboveRoot acc seg =
     (if seg = [] \<or> seg = ''.'' then acc
      else if seg = ''..'' then
        (case acc of [] \<Rightarrow> if aboveRoot then [''..''] else []
         | t # ts \<Rightarrow> if t = ''..'' then (if aboveRoot then ''..'' # acc else acc) else ts)
      else seg # acc)"

definition normalizeString :: "bool \<Rightarrow> string \<Rightarrow> string list" where
  \<comment> \<open>The segments that remain, first to last.\<close>
  "normalizeString aboveRoot p = rev (foldl (norm_step aboveRoot) [] (split (CHR ''/'') p))"

definition isAbsolute :: "string \<Rightarrow> bool" where
  "isAbsolute p = (case p of [] \<Rightarrow> False | c # _ \<Rightarrow> c = CHR ''/'')"

definition path_normalize :: "string \<Rightarrow> string" where
  "path_normalize p =
     (if p = [] then ''.''
      else let trailing = (last p = CHR ''/'');
               s = join ''/'' (normalizeString (\<not> isAbsolute p) p)
           in if s = [] then (if isAbsolute p then ''/'' else if trailing then ''./'' else ''.'')
              else (if isAbsolute p then ''/'' else []) @ s @ (if trailing then ''/'' else []))"

definition path_join :: "string list \<Rightarrow> string" where
  "path_join args =
     (let joined = join ''/'' (filter (\<lambda>a. a \<noteq> []) args)
      in if joined = [] then ''.'' else path_normalize joined)"

fun resolve_raw :: "string list \<Rightarrow> string" where
  \<comment> \<open>The arguments last to first, then the working directory, up to the first absolute one.\<close>
  "resolve_raw [] = []"
| "resolve_raw (p # ps) =
     (if p = [] then resolve_raw ps
      else if isAbsolute p then p @ ''/''
      else resolve_raw ps @ p @ ''/'')"

definition path_resolve :: "string \<Rightarrow> string list \<Rightarrow> string" where
  "path_resolve cwd args =
     (let raw = resolve_raw (rev args @ [cwd]);
          s = join ''/'' (normalizeString (\<not> isAbsolute raw) raw)
      in if isAbsolute raw then CHR ''/'' # s else if s = [] then ''.'' else s)"

fun strip_common :: "string list \<Rightarrow> string list \<Rightarrow> string list \<times> string list" where
  "strip_common (a # as) (b # bs) = (if a = b then strip_common as bs else (a # as, b # bs))"
| "strip_common as bs = (as, bs)"

definition path_relative :: "string \<Rightarrow> string \<Rightarrow> string \<Rightarrow> string" where
  "path_relative cwd from to =
     (case strip_common (normalizeString False (path_resolve cwd [from]))
                        (normalizeString False (path_resolve cwd [to])) of
        (up, down) \<Rightarrow> join ''/'' (replicate (length up) ''..'' @ down))"

section \<open>The path sandbox\<close>

datatype error = AccessDenied | IOError | InvalidRegExp regex_error

definition resolvePath :: "string \<Rightarrow> string \<Rightarrow> string \<Rightarrow> error + string" where
  "resolvePath cwd PROJECT_ROOT relativePath =
     (let absolutePath = path_resolve cwd [PROJECT_ROOT, relativePath]
      in if \<not> startsWith absolutePath PROJECT_ROOT then Inl AccessDenied
         else Inr absolutePath)"

section \<open>The file system\<close>

text \<open>
  A directory entry is a file (name, size in bytes, content unless unreadable), a readable
  directory with its entries in the order \<open>readdir\<close> returns them, or a directory that
  cannot be read. The file system is the entry of the root directory.
\<close>

datatype fsnode = FileNode string nat "string option" | DirNode string "fsnode list" | LockedDir string

fun entry_name :: "fsnode \<Rightarrow> string" where
  "entry_name (FileNode n sz c) = n"
| "entry_name (DirNode n es) = n"
| "entry_name (LockedDir n) = n"

fun isDirectory :: "fsnode \<Rightarrow> bool" where
  "isDirectory (FileNode n sz c) = False"
| "isDirectory (DirNode n es) = True"
| "isDirectory (LockedDir n) = True"

fun lookup :: "fsnode \<Rightarrow> string list \<Rightarrow> fsnode option"
  and lookup_in :: "fsnode list \<Rightarrow> string \<Rightarrow> string list \<Rightarrow> fsnode option" where
  "lookup nd [] = Some nd"
| "lookup (DirNode n es) (seg # segs) = lookup_in es seg segs"
| "lookup (FileNode n sz c) (seg # segs) = None"
| "lookup (LockedDir n) (seg # segs) = None"
| "lookup_in [] seg segs = None"
| "lookup_in (e # es) seg segs = (if entry_name e = seg then lookup e segs else lookup_in es seg segs)"

definition stat :: "string \<Rightarrow> fsnode \<Rightarrow> string \<Rightarrow> fsnode option" where
  "stat cwd fs p = lookup fs (normalizeString False (path_resolve cwd [p]))"

definition readdir :: "string \<Rightarrow> fsnode \<Rightarrow> string \<Rightarrow> error + fsnode list" where
  "readdir cwd fs p = (case stat cwd fs p of Some (DirNode n es) \<Rightarrow> Inr es | _ \<Rightarrow> Inl IOError)"

definition readFile :: "string \<Rightarrow> fsnode \<Rightarrow> string \<Rightarrow> error + string" where
  "readFile cwd fs p = (case stat cwd fs p of Some (FileNode n sz (Some c)) \<Rightarrow> Inr c | _ \<Rightarrow> Inl IOError)"

section \<open>The tree walker\<close>

definition EXCLUDE_DIRS :: "string list" where
  "EXCLUDE_DIRS = [''node_modules'', ''vendor'', ''.git'', ''.idea'', ''storage/framework'',
     ''storage/logs'', ''bootstrap/cache'']"

definition DEFAULT_EXTENSIONS :: "string list" where
  "DEFAULT_EXTENSIONS = [''.php'', ''.blade.php'', ''.js'', ''.vue'', ''.json'', ''.env'']"

definition shouldExclude :: "string \<Rightarrow> bool" where
  "shouldExclude filePath = list_ex (\<lambda>dir. includes_str filePath dir) EXCLUDE_DIRS"

text \<open>
  \<open>walk\<close> reads the directory at \<open>currentDir\<close>, whose entry is the last argument; reading
  anything but a readable directory throws, and the exception is swallowed.
\<close>

fun walk :: "string \<Rightarrow> string \<Rightarrow> string list \<Rightarrow> string \<Rightarrow> fsnode \<Rightarrow> string list" where
  "walk cwd PROJECT_ROOT extensions currentDir (DirNode n entries) =
     concat (map (\<lambda>entry.
        let fullPath = path_join [currentDir, entry_name entry];
            relativePath = path_relative cwd PROJECT_ROOT fullPath
        in if startsWith (entry_name entry) ''.'' \<or> shouldExclude relativePath then []
           else if isDirectory entry then walk cwd PROJECT_ROOT extensions fullPath entry
           else if list_ex (\<lambda>ext. endsWith (entry_name entry) ext) extensions then [relativePath]
           else []) entries)"
| "walk cwd PROJECT_ROOT extensions currentDir (FileNode n sz c) = []"
| "walk cwd PROJECT_ROOT extensions currentDir (LockedDir n) = []"

definition getFilesRecursively :: "string \<Rightarrow> string \<Rightarrow> fsnode \<Rightarrow> string \<Rightarrow> string list \<Rightarrow> string list" where
  "getFilesRecursively cwd PROJECT_ROOT fs dir extensions =
     (case stat cwd fs dir of None \<Rightarrow> [] | Some nd \<Rightarrow> walk cwd PROJECT_ROOT extensions dir nd)"

subsection \<open>Tree rendering\<close>

definition treeOrder :: "(string \<Rightarrow> string \<Rightarrow> int) \<Rightarrow> fsnode \<Rightarrow> fsnode \<Rightarrow> int" where
  \<comment> \<open>The comparator of the sort; \<open>localeCompare\<close> is a parameter.\<close>
  "treeOrder localeCompare a b =
     (if isDirectory a \<noteq> isDirectory b then (if isDirectory a then - 1 else 1)
      else localeCompare (entry_name a) (entry_name b))"

definition visible :: "fsnode list \<Rightarrow> fsnode list" where
  \<comment> \<open>The two filters that the listing and the tree rendering apply to the entries.\<close>
  "visible entries =
     filter (\<lambda>e. entry_name e \<notin> set EXCLUDE_DIRS)
       (filter (\<lambda>e. \<not> startsWith (entry_name e) ''.'') entries)"

fun mark_last :: "'a list \<Rightarrow> ('a \<times> bool) list" where
  "mark_last [] = []"
| "mark_last [x] = [(x, True)]"
| "mark_last (x # y # ys) = (x, False) # mark_last (y # ys)"

definition connector_last :: string where
  "connector_last = [CHR 0xE2, CHR 0x94, CHR 0x94, CHR 0xE2, CHR 0x94, CHR 0x80, CHR 0xE2, CHR 0x94, CHR 0x80, CHR 0x20]"

definition connector_mid :: string where
  "connector_mid = [CHR 0xE2, CHR 0x94, CHR 0x9C, CHR 0xE2, CHR 0x94, CHR 0x80, CHR 0xE2, CHR 0x94, CHR 0x80, CHR 0x20]"

definition extension_mid :: string where
  "extension_mid = [CHR 0xE2, CHR 0x94, CHR 0x82, CHR 0x20, CHR 0x20, CHR 0x20]"

function buildTree ::
  "(string \<Rightarrow> string \<Rightarrow> int) \<Rightarrow> string \<Rightarrow> fsnode \<Rightarrow> string \<Rightarrow> string \<Rightarrow> int \<Rightarrow> int \<Rightarrow> string" where
  "buildTree localeCompare cwd fs dirPath pfx depth maxDepth =
     (if depth \<ge> maxDepth then []
      else case readdir cwd fs dirPath of
        Inl err \<Rightarrow> []
      | Inr entries \<Rightarrow>
          concat (map (\<lambda>(entry, isLast).
              let connector = (if isLast then connector_last else connector_mid);
                  extension = (if isLast then ''    '' else extension_mid)
              in if isDirectory entry
                 then pfx @ connector @ entry_name entry @ [CHR ''/'', CHR 0x0A] @
                      buildTree localeCompare cwd fs (path_join [dirPath, entry_name entry])
                        (pfx @ extension) (depth + 1) maxDepth
                 else pfx @ connector @ entry_name entry @ [CHR 0x0A])
            (mark_last (sortBy (treeOrder localeCompare) (visible entries)))))"
  by pat_completeness auto
termination
  by (relation "measure (\<lambda>(lc, cwd, fs, dirPath, pfx, depth, maxDepth). nat (maxDepth - depth))") auto

subsection \<open>Listing\<close>

function unitIndex :: "nat \<Rightarrow> nat \<Rightarrow> nat" where
  \<comment> \<open>The loop of \<open>formatSize\<close>; dividing by 1024 is exact, so \<open>size\<close> is \<open>bytes / 1024 ^ i\<close>.\<close>
  "unitIndex bytes i = (if bytes \<ge> 1024 * 1024 ^ i \<and> i < 3 then unitIndex bytes (i + 1) else i)"
  by pat_completeness auto
termination
  by (relation "measure (\<lambda>(bytes, i). 3 - i)") auto

definition formatSize :: "nat \<Rightarrow> string" where
  "formatSize bytes =
     (let i = unitIndex bytes 0; d = 1024 ^ i; n = (20 * bytes + d) div (2 * d)
      in (if i > 0 then showNat (n div 10) @ ''.'' @ showNat (n mod 10) else showNat bytes)
         @ '' '' @ [''B'', ''KB'', ''MB'', ''GB''] ! i)"

record item =
  item_name :: string
  item_type :: string
  item_size :: "string option"

datatype listing =
    Found string string "string list" nat
  | Items string "item list" nat

definition itemOrder :: "(string \<Rightarrow> string \<Rightarrow> int) \<Rightarrow> item \<Rightarrow> item \<Rightarrow> int" where
  "itemOrder localeCompare a b =
     (if item_type a \<noteq> item_type b then (if item_type a = ''directory'' then - 1 else 1)
      else localeCompare (item_name a) (item_name b))"

fun stat_size :: "fsnode \<Rightarrow> nat" where
  "stat_size (FileNode n sz c) = sz"
| "stat_size nd = 0"

definition list_files ::
  "(string \<Rightarrow> string \<Rightarrow> int) \<Rightarrow> string \<Rightarrow> string \<Rightarrow> fsnode
     \<Rightarrow> string option \<Rightarrow> bool \<Rightarrow> string option \<Rightarrow> error + listing" where
  "list_files localeCompare cwd PROJECT_ROOT fs arg_directory arg_recursive arg_pattern =
     (let directory = (if truthy arg_directory then the arg_directory else ''.'')
      in case resolvePath cwd PROJECT_ROOT directory of
           Inl err \<Rightarrow> Inl err
         | Inr dirPath \<Rightarrow>
             if arg_recursive \<and> truthy arg_pattern then
               (let files = getFilesRecursively cwd PROJECT_ROOT fs dirPath [the arg_pattern]
                in Inr (Found directory (the arg_pattern) files (length files)))
             else
               (case readdir cwd fs dirPath of
                  Inl err \<Rightarrow> Inl err
                | Inr entries \<Rightarrow>
                    (let items = map (\<lambda>entry.
                           \<lparr>item_name = entry_name entry,
                            item_type = (if isDirectory entry then ''directory'' else ''file''),
                            item_size = (if isDirectory entry then None
                                         else Some (formatSize (stat_size entry)))\<rparr>)
                         (filter (\<lambda>e. \<not> truthy arg_pattern \<or> endsWith (entry_name e) (the arg_pattern))
                            (visible entries))
                     in Inr (Items directory (sortBy (itemOrder localeCompare) items) (length items)))))"

section \<open>Code search\<close>

definition LF :: char where
  "LF = CHR 0x0A"

definition escapeItems :: "citem list" where
  \<comment> \<open>The members of the class in \<open>escapeRegex\<close>.\<close>
  "escapeItems = map CChar (''.*+?^${}()|[]'' @ [BS])"

definition escapeRegex :: "string \<Rightarrow> string" where
  \<comment> \<open>Every code unit in the class is replaced by a backslash and itself.\<close>
  "escapeRegex str = concat (map (\<lambda>c. if list_ex (citem_has False c) escapeItems then [BS, c] else [c]) str)"

record search_hit =
  hit_line :: nat
  hit_content :: string

record file_result =
  fr_file :: string
  matches :: "search_hit list"
  matchCount :: nat

record search_report =
  query :: string
  totalMatches :: nat
  fileCount :: nat
  results :: "file_result list"

text \<open>
  The loop over the lines of one file. The expression is global, so a successful test
  moves its \<open>lastIndex\<close>, which the loop body sets back to 0.
\<close>

fun scan_lines :: "regexp \<Rightarrow> nat \<Rightarrow> string list \<Rightarrow> search_hit list \<Rightarrow> nat
    \<Rightarrow> search_hit list \<times> nat \<times> regexp" where
  "scan_lines regex index [] fileMatches sofar = (fileMatches, sofar, regex)"
| "scan_lines regex index (line # rest) fileMatches sofar =
     (case regexp_test regex line of
        (True, regex') \<Rightarrow>
          scan_lines (regex'\<lparr>lastIndex := 0\<rparr>) (index + 1) rest
            (fileMatches @ [\<lparr>hit_line = index + 1, hit_content = substring 0 200 (trim line)\<rparr>])
            (sofar + 1)
      | (False, regex') \<Rightarrow> scan_lines regex' (index + 1) rest fileMatches sofar)"

text \<open>
  The files are read concurrently. The callback of a file runs from the completion of its
  read to its end without interruption, so the callbacks run one after the other in the
  order in which the reads complete; \<open>scan_files\<close> takes the files in that order. An
  unreadable file is skipped.
\<close>

fun scan_files :: "string \<Rightarrow> string \<Rightarrow> fsnode \<Rightarrow> string list \<Rightarrow> file_result list \<Rightarrow> nat \<Rightarrow> regexp
    \<Rightarrow> file_result list \<times> nat \<times> regexp" where
  "scan_files cwd PROJECT_ROOT fs [] res sofar regex = (res, sofar, regex)"
| "scan_files cwd PROJECT_ROOT fs (f # files) res sofar regex =
     (case readFile cwd fs (path_join [PROJECT_ROOT, f]) of
        Inl err \<Rightarrow> scan_files cwd PROJECT_ROOT fs files res sofar regex
      | Inr content \<Rightarrow>
          (case scan_lines regex 0 (split LF content) [] sofar of
             (fileMatches, sofar', regex') \<Rightarrow>
               scan_files cwd PROJECT_ROOT fs files
                 (if length fileMatches > 0
                  then res @ [\<lparr>fr_file = f, matches = fileMatches, matchCount = length fileMatches\<rparr>]
                  else res)
                 sofar' regex'))"

definition byMatchCount :: "file_result \<Rightarrow> file_result \<Rightarrow> int" where
  "byMatchCount a b = int (matchCount b) - int (matchCount a)"

definition search_flags :: "bool option \<Rightarrow> string" where
  "search_flags case_sensitive = (if case_sensitive = Some True then ''g'' else ''gi'')"

text \<open>
  The order of completion is not determined by the program: it is the parameter
  \<open>completion\<close>, which rearranges the list of the files.
\<close>

definition search_code ::
  "string \<Rightarrow> string \<Rightarrow> fsnode \<Rightarrow> (string list \<Rightarrow> string list) \<Rightarrow> string \<Rightarrow> string list option
     \<Rightarrow> bool option \<Rightarrow> error + search_report" where
  "search_code cwd PROJECT_ROOT fs completion arg_query file_extensions case_sensitive =
     (let extensions = (case file_extensions of None \<Rightarrow> DEFAULT_EXTENSIONS | Some es \<Rightarrow> es);
          files = getFilesRecursively cwd PROJECT_ROOT fs PROJECT_ROOT extensions
      in case newRegExp (escapeRegex arg_query) (search_flags case_sensitive) of
           Inl err \<Rightarrow> Inl (InvalidRegExp err)
         | Inr regex \<Rightarrow>
             (case scan_files cwd PROJECT_ROOT fs (completion files) [] 0 regex of
                (res, sofar, regex') \<Rightarrow>
                  Inr \<lparr>query = arg_query, totalMatches = sofar, fileCount = length res,
                       results = take 50 (sortBy byMatchCount res)\<rparr>))"

section \<open>Search and replace\<close>






section \<open>The structural analyzer\<close>

definition ws :: rexp where
  "ws = Cls False [CSpace]"

definition word :: rexp where
  "word = Cls False [CWord]"

definition visibility :: rexp where
  "visibility = mk_alt [mk_seq (map Lit ''public''), mk_seq (map Lit ''protected''),
     mk_seq (map Lit ''private'')]"

definition static :: rexp where
  "static = mk_seq (map Lit ''static'' @ [Plus ws])"

definition nsRegex :: rexp where
  "nsRegex = mk_seq ([Bol, Star ws] @ map Lit ''namespace'' @
     [Plus ws, Grp 1 (Plus (Cls True [CChar CHR '';'']))])"

definition useRegex :: rexp where
  "useRegex = mk_seq ([Bol, Star ws] @ map Lit ''use'' @
     [Plus ws, Grp 1 (Plus (Cls True [CChar CHR '';'']))])"

definition classRegex :: rexp where
  "classRegex = mk_seq [Bol, Star ws,
     Opt (Grp 1 (mk_seq (map Lit ''abstract'' @ [Plus ws]))),
     Opt (Grp 2 (mk_seq (map Lit ''final'' @ [Plus ws]))),
     Grp 3 (mk_alt [mk_seq (map Lit ''class''), mk_seq (map Lit ''interface''),
                    mk_seq (map Lit ''trait''), mk_seq (map Lit ''enum'')]),
     Plus ws, Grp 4 (Plus word)]"

definition extendsRegex :: rexp where
  "extendsRegex = mk_seq (map Lit ''extends'' @ [Plus ws, Grp 1 (Plus word)])"

definition implRegex :: rexp where
  "implRegex = mk_seq (map Lit ''implements'' @ [Plus ws, Grp 1 (Plus (Cls True [CChar CHR ''{'']))])"

definition constRegex :: rexp where
  "constRegex = mk_seq ([Bol, Star ws, Opt (Grp 1 visibility), Star ws] @ map Lit ''const'' @
     [Plus ws, Grp 2 (Plus word), Star ws, Lit CHR ''=''])"

definition propRegex :: rexp where
  "propRegex = mk_seq [Bol, Star ws, Grp 1 visibility, Plus ws, Opt (Grp 2 static),
     Opt (Grp 3 (mk_seq [Opt (Lit CHR ''?''), Plus word,
        Star (mk_seq [Lit CHR ''|'', Plus (Cls False [CWord, CChar CHR ''?''])])])),
     Star ws, Lit CHR ''$'', Grp 4 (Plus word)]"

definition methodRegex :: rexp where
  "methodRegex = mk_seq ([Bol, Star ws, Grp 1 visibility, Plus ws, Opt (Grp 2 static)] @
     map Lit ''function'' @
     [Plus ws, Grp 3 (Plus word), Star ws, Lit CHR ''('', Grp 4 (Star (Cls True [CChar CHR '')''])),
      Lit CHR '')''])"

definition returnRegex :: rexp where
  "returnRegex = mk_seq [Lit CHR '')'', Lit CHR '':'', Star ws,
     Grp 1 (mk_seq [Opt (Lit CHR ''?''), Plus (Cls False [CWord, CChar CHR ''|'', CChar BS])])]"

record php_import =
  statement :: string
  import_line :: nat

record php_constant =
  const_name :: string
  const_visibility :: string
  const_line :: nat

record php_property =
  prop_name :: string
  prop_visibility :: string
  prop_isStatic :: bool
  prop_type :: "string option"
  prop_line :: nat

record php_method =
  method_name :: string
  method_visibility :: string
  method_isStatic :: bool
  params :: "string option"
  returnType :: "string option"
  method_line :: nat

record analysis =
  analysed_file :: string
  namespace :: "string option"
  className :: "string option"
  classType :: "string option"
  extends :: "string option"
  implements :: "string list"
  traits :: "string list"
  imports_list :: "php_import list"
  constants :: "php_constant list"
  properties :: "php_property list"
  methods :: "php_method list"
  fullClassName :: "string option"

definition cap :: "(nat \<rightharpoonup> string) \<Rightarrow> nat \<Rightarrow> string" where
  \<comment> \<open>The text of a group that takes part in every match of its expression.\<close>
  "cap m k = (case m k of None \<Rightarrow> [] | Some v \<Rightarrow> v)"

definition orNull :: "string option \<Rightarrow> string option" where
  \<comment> \<open>\<open>v || null\<close>\<close>
  "orNull v = (if truthy v then v else None)"

definition initial :: "string \<Rightarrow> analysis" where
  "initial path = \<lparr>analysed_file = path, namespace = None, className = None, classType = None,
     extends = None, implements = [], traits = [], imports_list = [], constants = [],
     properties = [], methods = [], fullClassName = None\<rparr>"

definition rule_namespace :: "string \<Rightarrow> analysis \<Rightarrow> analysis" where
  "rule_namespace line a =
     (case str_match line nsRegex of None \<Rightarrow> a
      | Some nsMatch \<Rightarrow> a\<lparr>namespace := Some (trim (cap nsMatch 1))\<rparr>)"

definition rule_use :: "string \<Rightarrow> nat \<Rightarrow> bool \<Rightarrow> analysis \<Rightarrow> analysis" where
  "rule_use line lineNum insideClass a =
     (case str_match line useRegex of None \<Rightarrow> a
      | Some useMatch \<Rightarrow>
          if \<not> insideClass
          then a\<lparr>imports_list := imports_list a @
                   [\<lparr>statement = trim (cap useMatch 1), import_line = lineNum\<rparr>]\<rparr>
          else if insideClass \<and> \<not> includes_str (cap useMatch 1) [BS]
          then a\<lparr>traits := traits a @ [trim (cap useMatch 1)]\<rparr>
          else a)"

definition rule_class :: "string \<Rightarrow> analysis \<times> bool \<Rightarrow> analysis \<times> bool" where
  "rule_class line st =
     (case st of (a, insideClass) \<Rightarrow>
        (case str_match line classRegex of None \<Rightarrow> (a, insideClass)
         | Some classMatch \<Rightarrow>
             if truthy (className a) then (a, insideClass)
             else
               (let a1 = a\<lparr>classType := classMatch 3, className := classMatch 4\<rparr>;
                    a2 = (case str_match line extendsRegex of None \<Rightarrow> a1
                          | Some extendsMatch \<Rightarrow> a1\<lparr>extends := extendsMatch 1\<rparr>);
                    a3 = (case str_match line implRegex of None \<Rightarrow> a2
                          | Some implMatch \<Rightarrow>
                              a2\<lparr>implements :=
                                   filter (\<lambda>i. i \<noteq> []) (map trim (split (CHR '','') (cap implMatch 1)))\<rparr>)
                in (a3, True))))"

definition rule_const :: "string \<Rightarrow> nat \<Rightarrow> analysis \<Rightarrow> analysis" where
  "rule_const line lineNum a =
     (case str_match line constRegex of None \<Rightarrow> a
      | Some constMatch \<Rightarrow>
          a\<lparr>constants := constants a @
               [\<lparr>const_name = cap constMatch 2,
                 const_visibility = (if truthy (constMatch 1) then cap constMatch 1 else ''public''),
                 const_line = lineNum\<rparr>]\<rparr>)"

definition rule_prop :: "string \<Rightarrow> nat \<Rightarrow> analysis \<Rightarrow> analysis" where
  "rule_prop line lineNum a =
     (case str_match line propRegex of None \<Rightarrow> a
      | Some propMatch \<Rightarrow>
          a\<lparr>properties := properties a @
               [\<lparr>prop_name = cap propMatch 4, prop_visibility = cap propMatch 1,
                 prop_isStatic = truthy (propMatch 2), prop_type = orNull (propMatch 3),
                 prop_line = lineNum\<rparr>]\<rparr>)"

definition rule_method :: "string \<Rightarrow> nat \<Rightarrow> analysis \<Rightarrow> analysis" where
  "rule_method line lineNum a =
     (case str_match line methodRegex of None \<Rightarrow> a
      | Some methodMatch \<Rightarrow>
          a\<lparr>methods := methods a @
               [\<lparr>method_name = cap methodMatch 3, method_visibility = cap methodMatch 1,
                 method_isStatic = truthy (methodMatch 2),
                 params = orNull (Some (trim (cap methodMatch 4))),
                 returnType = (case str_match line returnRegex of None \<Rightarrow> None
                               | Some returnMatch \<Rightarrow> returnMatch 1),
                 method_line = lineNum\<rparr>]\<rparr>)"

text \<open>The body of the loop: the rules in the order of the source, on one line.\<close>

definition analyze_line :: "analysis \<times> bool \<Rightarrow> string \<Rightarrow> nat \<Rightarrow> analysis \<times> bool" where
  "analyze_line st line lineNum =
     (case rule_class line (rule_use line lineNum (snd st) (rule_namespace line (fst st)), snd st) of
        (a, insideClass) \<Rightarrow>
          (rule_method line lineNum (rule_prop line lineNum (rule_const line lineNum a)), insideClass))"

fun analyze_lines :: "analysis \<times> bool \<Rightarrow> nat \<Rightarrow> string list \<Rightarrow> analysis \<times> bool" where
  "analyze_lines st i [] = st"
| "analyze_lines st i (line # rest) = analyze_lines (analyze_line st line (i + 1)) (i + 1) rest"

definition finish :: "analysis \<Rightarrow> analysis" where
  "finish a =
     (if truthy (namespace a) \<and> truthy (className a)
      then a\<lparr>fullClassName := Some (the (namespace a) @ [BS] @ the (className a))\<rparr>
      else a)"

definition analyze_text :: "string \<Rightarrow> string \<Rightarrow> analysis" where
  "analyze_text path content = finish (fst (analyze_lines (initial path, False) 0 (split LF content)))"

definition analyze_php_file :: "string \<Rightarrow> string \<Rightarrow> fsnode \<Rightarrow> string \<Rightarrow> error + analysis" where
  "analyze_php_file cwd PROJECT_ROOT fs arg_path =
     (case resolvePath cwd PROJECT_ROOT arg_path of
        Inl err \<Rightarrow> Inl err
      | Inr filePath \<Rightarrow>
          (case readFile cwd fs filePath of
             Inl err \<Rightarrow> Inl err
           | Inr content \<Rightarrow> Inr (analyze_text arg_path content)))"

section \<open>The usage finder\<close>















section \<open>Reference definitions\<close>

text \<open>
  What the claims are measured against: the lines of a text that contain a string
  literally (under case folding unless the search is case sensitive), the hits of a list of
  lines and of a file, the files of a search that have hits, and sample inputs.
\<close>

definition special :: "char \<Rightarrow> bool" where
  "special c = list_ex (citem_has False c) escapeItems"

definition hit :: "regexp \<Rightarrow> string \<Rightarrow> bool" where
  "hit re line = (search_from (ignoreCase re) (ast re) None line \<noteq> None)"

definition literal_line :: "bool option \<Rightarrow> string \<Rightarrow> string \<Rightarrow> bool" where
  "literal_line case_sensitive q line =
     includes_str (map (canonicalize (case_sensitive \<noteq> Some True)) line)
                  (map (canonicalize (case_sensitive \<noteq> Some True)) q)"

definition hits_of :: "(string \<Rightarrow> bool) \<Rightarrow> nat \<Rightarrow> string list \<Rightarrow> search_hit list" where
  "hits_of P i ls =
     map (\<lambda>(k, l). \<lparr>hit_line = Suc k, hit_content = substring 0 200 (trim l)\<rparr>)
         (filter (\<lambda>(k, l). P l) (enumerate i ls))"

definition file_hits :: "string \<Rightarrow> string \<Rightarrow> fsnode \<Rightarrow> (string \<Rightarrow> bool) \<Rightarrow> string \<Rightarrow> search_hit list" where
  "file_hits cwd root fs P f =
     (case readFile cwd fs (path_join [root, f]) of
        Inl err \<Rightarrow> [] | Inr content \<Rightarrow> hits_of P 0 (split LF content))"

definition hit_files :: "string \<Rightarrow> string \<Rightarrow> fsnode \<Rightarrow> (string \<Rightarrow> bool) \<Rightarrow> string list \<Rightarrow> file_result list" where
  "hit_files cwd root fs P files =
     concat (map (\<lambda>f. if file_hits cwd root fs P f = [] then []
                        else [\<lparr>fr_file = f, matches = file_hits cwd root fs P f,
                               matchCount = length (file_hits cwd root fs P f)\<rparr>]) files)"

definition searched_files :: "string \<Rightarrow> string \<Rightarrow> fsnode \<Rightarrow> string list option \<Rightarrow> string list" where
  "searched_files cwd root fs file_extensions =
     getFilesRecursively cwd root fs root
       (case file_extensions of None \<Rightarrow> DEFAULT_EXTENSIONS | Some es \<Rightarrow> es)"

definition matching_lines :: "string \<Rightarrow> string \<Rightarrow> fsnode \<Rightarrow> bool option \<Rightarrow> string \<Rightarrow> string \<Rightarrow> nat" where
  "matching_lines cwd root fs cs q f =
     (case readFile cwd fs (path_join [root, f]) of
        Inl err \<Rightarrow> 0 | Inr content \<Rightarrow> length (filter (literal_line cs q) (split LF content)))"

definition sampleCounts :: "file_result list" where
  "sampleCounts = [\<lparr>fr_file = ''a.php'', matches = [], matchCount = 3\<rparr>,
                   \<lparr>fr_file = ''b.php'', matches = [], matchCount = 1\<rparr>,
                   \<lparr>fr_file = ''c.php'', matches = [], matchCount = 5\<rparr>]"

definition sampleSearch :: fsnode where
  "sampleSearch = DirNode [] [DirNode ''proj''
     [FileNode ''a.php'' 19 (Some (''foo foo'' @ [LF] @ ''foo'' @ [LF] @ ''x foo'')),
      FileNode ''b.php'' 3 (Some ''Foo''),
      FileNode ''c.php'' 29 (Some (''foo'' @ [LF] @ ''foo'' @ [LF] @ ''foofoo'' @ [LF] @ ''foo''
                                   @ [LF] @ ''foo'' @ [LF] @ ''bar'')),
      FileNode ''d.txt'' 3 (Some ''foo''),
      FileNode ''e.php'' 3 None]]"


definition matches_of :: "rexp \<Rightarrow> string list \<Rightarrow> (nat \<rightharpoonup> string) list" where
  \<comment> \<open>The matches of the lines that match, in the order of the lines.\<close>
  "matches_of r ls = List.map_filter (\<lambda>l. str_match l r) ls"

definition headerSeen :: "string list \<Rightarrow> bool" where
  "headerSeen ls = (matches_of classRegex ls \<noteq> [])"

definition use_lines :: "string list \<Rightarrow> (nat \<times> (nat \<rightharpoonup> string)) list" where
  \<comment> \<open>The lines of the import shape, by index, with their match.\<close>
  "use_lines ls = concat (map (\<lambda>i. case str_match (ls ! i) useRegex of None \<Rightarrow> [] | Some m \<Rightarrow> [(i, m)])
                              [0..<length ls])"

definition traits_of :: "string list \<Rightarrow> string list" where
  "traits_of ls = map (\<lambda>(i, m). trim (cap m 1))
     (filter (\<lambda>(i, m). headerSeen (take i ls) \<and> \<not> includes_str (cap m 1) [BS]) (use_lines ls))"

definition imports_of :: "string list \<Rightarrow> php_import list" where
  "imports_of ls = map (\<lambda>(i, m). \<lparr>statement = trim (cap m 1), import_line = Suc i\<rparr>)
     (filter (\<lambda>(i, m). \<not> headerSeen (take i ls)) (use_lines ls))"

definition scenarioText :: string where
  "scenarioText = ''namespace App'' @ [BS] @ ''Models;'' @ [LF] @
     ''class User extends Model implements Authenticatable''"

definition twoNamespaces :: string where
  "twoNamespaces = ''namespace A;'' @ [LF] @ ''class C {}'' @ [LF] @ ''namespace B;'' @ [LF] @ ''class D {}''"

definition qualifiedTraitUse :: string where
  "qualifiedTraitUse = ''class C {'' @ [LF] @ ''  use App'' @ [BS] @ ''Concerns'' @ [BS] @ ''Sluggable;''"

definition mixedUses :: string where
  "mixedUses = ''use A'' @ [BS] @ ''B;'' @ [LF] @ ''class C {'' @ [LF] @ ''  use T;'' @ [LF] @
     ''  use P'' @ [BS] @ ''Q;''"


definition sampleLiteral :: fsnode where
  \<comment> \<open>Three files for the query \<open>a.b(c)\<close>: one that the pattern would match, two that contain it.\<close>
  "sampleLiteral = DirNode [] [DirNode ''proj''
     [FileNode ''p.php'' 4 (Some ''axbc''),
      FileNode ''q.php'' 9 (Some ''xA.B(C)y''),
      FileNode ''r.php'' 15 (Some (''first'' @ [LF] @ ''xa.b(c)y''))]]"

definition manyFiles :: fsnode where
  \<comment> \<open>51 files with one matching line each.\<close>
  "manyFiles = DirNode [] [DirNode ''proj''
     (map (\<lambda>i. FileNode (''f'' @ showNat i @ ''.php'') 3 (Some ''foo'')) [0..<51])]"







definition sampleStorage :: fsnode where
  \<comment> \<open>\<open>/proj\<close> with a framework directory under \<open>storage\<close>, and hidden entries.\<close>
  "sampleStorage = DirNode [] [DirNode ''proj''
     [DirNode ''storage''
        [DirNode ''framework'' [FileNode ''cache.php'' 10 (Some ''cached'')],
         FileNode ''app.php'' 5 (Some ''hello'')],
      DirNode ''.config'' [FileNode ''local.php'' 4 (Some ''conf'')],
      FileNode ''.hidden.php'' 3 (Some ''hid'')]]"

section \<open>The path sandbox is closed\<close>

lemma resolve_raw_absolute: "isAbsolute cwd \<Longrightarrow> isAbsolute (resolve_raw (args @ [cwd]))"
  by (induction args) (auto simp: isAbsolute_def split: list.splits)

lemma path_resolve_absolute: "isAbsolute cwd \<Longrightarrow> isAbsolute (path_resolve cwd args)"
  using resolve_raw_absolute [of cwd "rev args"]
  by (simp add: path_resolve_def Let_def isAbsolute_def)

text \<open>
  C1. For every caller-supplied path, \<open>resolvePath\<close> either fails with \<open>AccessDenied\<close> or
  returns the resolved absolute path; it fails exactly when the resolved path does not
  begin with the project root, and every path it returns begins with the project root
  (and is absolute, the working directory being absolute).
\<close>

theorem resolvePath_sandbox:
  "(resolvePath cwd root p = Inl AccessDenied \<or> resolvePath cwd root p = Inr (path_resolve cwd [root, p]))
   \<and> (resolvePath cwd root p = Inl AccessDenied \<longleftrightarrow> \<not> prefix root (path_resolve cwd [root, p]))
   \<and> (\<forall>a. resolvePath cwd root p = Inr a \<longrightarrow> prefix root a \<and> (isAbsolute cwd \<longrightarrow> isAbsolute a))"
  using path_resolve_absolute [of cwd "[root, p]"]
  by (auto simp: resolvePath_def Let_def startsWith_def)

theorem resolvePath_sandbox_witness:
  "resolvePath ''/srv'' ''/srv/proj'' ''a/../../../etc/passwd'' = Inl AccessDenied
   \<and> \<not> prefix ''/srv/proj'' (path_resolve ''/srv'' [''/srv/proj'', ''a/../../../etc/passwd''])
   \<and> resolvePath ''/srv'' ''/srv/proj'' ''a/../b/./c.php'' = Inr ''/srv/proj/b/c.php''
   \<and> prefix ''/srv/proj'' ''/srv/proj/b/c.php'' \<and> isAbsolute ''/srv/proj/b/c.php''"
proof -
  have a: "path_resolve ''/srv'' [''/srv/proj'', ''a/../../../etc/passwd''] = ''/etc/passwd''"
    by code_simp
  have b: "path_resolve ''/srv'' [''/srv/proj'', ''a/../b/./c.php''] = ''/srv/proj/b/c.php''"
    by code_simp
  have c: "isAbsolute ''/srv''" by (simp add: isAbsolute_def)
  from resolvePath_sandbox [of "''/srv''" "''/srv/proj''" "''a/../../../etc/passwd''"]
       resolvePath_sandbox [of "''/srv''" "''/srv/proj''" "''a/../b/./c.php''"] a b c
  show ?thesis by (auto simp: isAbsolute_def)
qed

section \<open>Search and replace\<close>








section \<open>The matcher on literal text\<close>

lemma ends_mk_seq_Cons:
  "ends ic (mk_seq (a # as)) st = concat (map (ends ic (mk_seq as)) (ends ic a st))"
proof (cases as)
  case Nil
  have "ends ic Eps = (\<lambda>st. [st])" by (rule ext) simp
  with Nil show ?thesis by simp
next
  case (Cons b bs)
  then show ?thesis by simp
qed

lemma ends_literal:
  "ends ic (mk_seq (map Lit q)) (p, s, cs) =
     (if prefix (map (canonicalize ic) q) (map (canonicalize ic) s)
      then [(if q = [] then p else Some (s ! (length q - 1)), drop (length q) s, cs)] else [])"
proof (induction q arbitrary: p s)
  case Nil
  then show ?case by simp
next
  case (Cons c q)
  show ?case
  proof (cases s)
    case Nil
    then show ?thesis by (simp add: ends_mk_seq_Cons del: mk_seq.simps)
  next
    case (Cons d ds)
    then show ?thesis
      using Cons.IH [of "Some d" ds]
      by (cases q) (simp_all add: ends_mk_seq_Cons del: mk_seq.simps)
  qed
qed

lemma search_literal:
  "search_from ic (mk_seq (map Lit q)) p s \<noteq> None
     \<longleftrightarrow> sublist (map (canonicalize ic) q) (map (canonicalize ic) s)"
proof (induction s arbitrary: p)
  case Nil
  then show ?case by (simp add: ends_literal)
next
  case (Cons d ds)
  have "search_from ic (mk_seq (map Lit q)) p (d # ds) \<noteq> None \<longleftrightarrow>
        prefix (map (canonicalize ic) q) (map (canonicalize ic) (d # ds))
        \<or> search_from ic (mk_seq (map Lit q)) (Some d) ds \<noteq> None"
    by (subst search_from.simps) (simp add: ends_literal)
  with Cons.IH [of "Some d"] show ?case
    by (simp add: sublist_Cons_right)
qed

subsection \<open>An escaped query parses to its own characters\<close>

lemma special_iff: "special c \<longleftrightarrow> c \<in> set (''.*+?^${}()|[]'' @ [BS])"
  by (simp add: special_def escapeItems_def canonicalize_def list_ex_iff image_iff eq_commute)

lemma atom_escape_all:
  "list_all (\<lambda>c. atom_escape c = Inr (Lit c)) (''.*+?^${}()|[]'' @ [BS])"
  by code_simp

lemma atom_escape_special: "special c \<Longrightarrow> atom_escape c = Inr (Lit c)"
  using atom_escape_all unfolding special_iff list_all_iff by blast

lemma step_backslash:
  "parse_step fs n q BS (e # rest) =
     (case atom_escape e of Inl err \<Rightarrow> Inl err
      | Inr a \<Rightarrow> Inr (push_term a fs, n, a \<noteq> WordB True \<and> a \<noteq> WordB False, 1))"
  by (simp add: parse_step_def BS_def)

lemma step_escaped:
  "special c \<Longrightarrow> parse_step fs n q BS (c # rest) = Inr (push_term (Lit c) fs, n, True, 1)"
  by (simp add: step_backslash atom_escape_special)

lemma step_plain:
  "\<not> special c \<Longrightarrow> parse_step fs n q c rest = Inr (push_term (Lit c) fs, n, True, 0)"
  unfolding special_iff
  by (simp add: parse_step_def)

lemma parse_escaped:
  "parse_re [(alts, cur, g)] n q (escapeRegex s) = Inr (close_frame (alts, rev (map Lit s) @ cur, g))"
proof (induction s arbitrary: cur q)
  case Nil
  then show ?case by (simp add: escapeRegex_def)
next
  case (Cons c s)
  have e: "escapeRegex (c # s) = (if special c then [BS, c] else [c]) @ escapeRegex s"
    by (simp add: escapeRegex_def special_def)
  show ?case
  proof (cases "special c")
    case True
    with e Cons.IH [of "Lit c # cur" True] show ?thesis
      by (simp add: step_escaped del: close_frame.simps)
  next
    case False
    with e Cons.IH [of "Lit c # cur" True] show ?thesis
      by (simp add: step_plain del: close_frame.simps)
  qed
qed

lemma regex_parse_escaped: "regex_parse (escapeRegex s) = Inr (mk_seq (map Lit s))"
  by (simp add: regex_parse_def parse_escaped)

lemma newRegExp_escaped:
  "newRegExp (escapeRegex q) (search_flags cs) =
     Inr \<lparr>ast = mk_seq (map Lit q), ignoreCase = (cs \<noteq> Some True), global = True, lastIndex = 0\<rparr>"
  by (simp add: newRegExp_def regex_parse_escaped search_flags_def)

lemma hit_literal:
  "hit \<lparr>ast = mk_seq (map Lit q), ignoreCase = (cs \<noteq> Some True), global = g, lastIndex = i\<rparr>
     = literal_line cs q"
  by (rule ext)
     (simp only: hit_def literal_line_def includes_str_def regexp.select_convs search_literal)

section \<open>The search loop\<close>

lemma regexp_test_fresh:
  assumes "global re" "lastIndex re = 0" "regexp_test re line = (h, re')"
  shows "h = hit re line" "re'\<lparr>lastIndex := 0\<rparr> = re" "\<not> h \<Longrightarrow> re' = re"
  using assms
  by (cases re; auto simp: regexp_test_def regexp_exec_def hit_def Let_def split: option.splits prod.splits)+

lemma hits_of_Nil: "hits_of P i [] = []"
  by (simp add: hits_of_def)

lemma hits_of_Cons:
  "hits_of P i (l # ls) =
     (if P l then [\<lparr>hit_line = Suc i, hit_content = substring 0 200 (trim l)\<rparr>] else [])
     @ hits_of P (Suc i) ls"
  by (simp add: hits_of_def)

lemma length_hits_of: "length (hits_of P i ls) = length (filter P ls)"
  by (induction ls arbitrary: i) (simp_all add: hits_of_Nil hits_of_Cons)

lemma scan_lines_char:
  "global re \<Longrightarrow> lastIndex re = 0 \<Longrightarrow>
   scan_lines re i ls fm c = (fm @ hits_of (hit re) i ls, c + length (hits_of (hit re) i ls), re)"
proof (induction ls arbitrary: i fm c)
  case Nil
  then show ?case by (simp add: hits_of_Nil)
next
  case (Cons l ls)
  obtain h re' where t: "regexp_test re l = (h, re')"
    by (cases "regexp_test re l") auto
  note f = regexp_test_fresh [OF Cons.prems t]
  show ?case
  proof (cases h)
    case True
    with t f Cons.IH [OF Cons.prems] show ?thesis
      by (simp add: hits_of_Cons)
  next
    case False
    with t f Cons.IH [OF Cons.prems] show ?thesis
      by (simp add: hits_of_Cons)
  qed
qed

lemma scan_files_char:
  "global re \<Longrightarrow> lastIndex re = 0 \<Longrightarrow>
   scan_files cwd root fs files res c re =
     (res @ hit_files cwd root fs (hit re) files,
      c + sum_list (map (\<lambda>f. length (file_hits cwd root fs (hit re) f)) files), re)"
proof (induction files arbitrary: res c)
  case Nil
  then show ?case by (simp add: hit_files_def)
next
  case (Cons f files)
  show ?case
  proof (cases "readFile cwd fs (path_join [root, f])")
    case (Inl err)
    with Cons.IH [OF Cons.prems] show ?thesis
      by (simp add: hit_files_def file_hits_def)
  next
    case (Inr content)
    with Cons.IH [OF Cons.prems] show ?thesis
      by (simp add: hit_files_def file_hits_def scan_lines_char [OF Cons.prems])
  qed
qed

lemma sum_hit_files:
  "sum_list (map matchCount (hit_files cwd root fs P files)) =
   sum_list (map (\<lambda>f. length (file_hits cwd root fs P f)) files)"
  by (induction files) (simp_all add: hit_files_def)

lemma length_file_hits:
  "length (file_hits cwd root fs (literal_line cs q) f) = matching_lines cwd root fs cs q f"
  by (simp add: file_hits_def matching_lines_def length_hits_of split: sum.splits)

lemma hit_files_counts:
  "r \<in> set (hit_files cwd root fs P files) \<Longrightarrow>
   fr_file r \<in> set files \<and> matchCount r = length (file_hits cwd root fs P (fr_file r))
   \<and> matches r = file_hits cwd root fs P (fr_file r) \<and> 0 < matchCount r"
  by (induction files) (auto simp: hit_files_def split: if_splits)

lemma hit_files_complete:
  "f \<in> set files \<Longrightarrow> file_hits cwd root fs P f \<noteq> [] \<Longrightarrow>
   \<exists>r\<in>set (hit_files cwd root fs P files). fr_file r = f"
  by (induction files) (auto simp: hit_files_def)

lemma length_hit_files:
  "length (hit_files cwd root fs P files) = length (filter (\<lambda>f. file_hits cwd root fs P f \<noteq> []) files)"
  by (induction files) (simp_all add: hit_files_def)

lemma search_code_char:
  "search_code cwd root fs completion q exts cs =
     Inr \<lparr>query = q,
          totalMatches = sum_list (map (\<lambda>f. length (file_hits cwd root fs (literal_line cs q) f))
                                      (completion (searched_files cwd root fs exts))),
          fileCount = length (hit_files cwd root fs (literal_line cs q)
                                (completion (searched_files cwd root fs exts))),
          results = take 50 (sortBy byMatchCount
                      (hit_files cwd root fs (literal_line cs q)
                         (completion (searched_files cwd root fs exts))))\<rparr>"
proof -
  let ?re = "\<lparr>ast = mk_seq (map Lit q), ignoreCase = (cs \<noteq> Some True), global = True, lastIndex = 0\<rparr>"
  let ?files = "completion (searched_files cwd root fs exts)"
  have h: "hit ?re = literal_line cs q"
    by (rule hit_literal)
  have "scan_files cwd root fs ?files [] 0 ?re =
     ([] @ hit_files cwd root fs (hit ?re) ?files,
      0 + sum_list (map (\<lambda>f. length (file_hits cwd root fs (hit ?re) f)) ?files), ?re)"
    by (rule scan_files_char) simp_all
  with h show ?thesis
    by (simp add: search_code_def newRegExp_escaped searched_files_def Let_def)
qed

section \<open>Ranking and truncation\<close>

lemma set_insertBy: "set (insertBy cmp x xs) = insert x (set xs)"
  by (induction xs) auto

lemma mset_insertBy: "mset (insertBy cmp x xs) = add_mset x (mset xs)"
  by (induction xs) auto

lemma mset_sortBy: "mset (sortBy cmp xs) = mset xs"
  by (induction xs) (simp_all add: sortBy_def mset_insertBy)

lemma sorted_insertBy:
  "sorted_wrt (\<lambda>a b. matchCount b \<le> matchCount a) xs \<Longrightarrow>
   sorted_wrt (\<lambda>a b. matchCount b \<le> matchCount a) (insertBy byMatchCount x xs)"
  by (induction xs) (auto simp: set_insertBy byMatchCount_def)

lemma sorted_sortBy: "sorted_wrt (\<lambda>a b. matchCount b \<le> matchCount a) (sortBy byMatchCount xs)"
  by (induction xs) (simp_all add: sortBy_def sorted_insertBy)

text \<open>The order of completion changes neither the files with hits nor the sums over the files.\<close>

lemma mset_concat_map:
  "mset xs = mset ys \<Longrightarrow> mset (concat (map g xs)) = mset (concat (map g ys))"
proof -
  assume e: "mset xs = mset ys"
  have "mset (concat (map g zs)) = (\<Sum>z\<in>#mset zs. mset (g z))" for zs
    by (induction zs) simp_all
  with e show ?thesis by simp
qed

lemma mset_hit_files:
  "mset xs = mset ys \<Longrightarrow>
   mset (hit_files cwd root fs P xs) = mset (hit_files cwd root fs P ys)"
  unfolding hit_files_def by (rule mset_concat_map)

lemma sum_list_map_mset:
  fixes h :: "'a \<Rightarrow> nat"
  shows "mset xs = mset ys \<Longrightarrow> sum_list (map h xs) = sum_list (map h ys)"
proof -
  assume e: "mset xs = mset ys"
  have "sum_list (map h zs) = (\<Sum>z\<in>#mset zs. h z)" for zs
    by (induction zs) simp_all
  with e show ?thesis by simp
qed

text \<open>
  The report of a search, whatever the order of completion: the list \<open>S\<close> of the files
  with hits sorted by their counts, of which the report keeps the first 50.
\<close>

lemma search_code_sorted:
  assumes "mset (completion (searched_files cwd root fs exts)) = mset (searched_files cwd root fs exts)"
  shows "\<exists>S. search_code cwd root fs completion q exts cs =
            Inr \<lparr>query = q, totalMatches = sum_list (map matchCount S), fileCount = length S,
                 results = take 50 S\<rparr>
          \<and> mset S = mset (hit_files cwd root fs (literal_line cs q) (searched_files cwd root fs exts))
          \<and> sorted_wrt (\<lambda>a b. matchCount b \<le> matchCount a) S"
proof -
  let ?F = "searched_files cwd root fs exts"
  let ?H = "hit_files cwd root fs (literal_line cs q) (completion ?F)"
  let ?S = "sortBy byMatchCount ?H"
  have m: "mset ?S = mset ?H" by (rule mset_sortBy)
  then have l: "length ?S = length ?H" by (rule mset_eq_length)
  from m have "sum_list (map matchCount ?S) = sum_list (map matchCount ?H)"
    by (rule sum_list_map_mset)
  then have t: "sum_list (map matchCount ?S) =
      sum_list (map (\<lambda>f. length (file_hits cwd root fs (literal_line cs q) f)) (completion ?F))"
    by (simp only: sum_hit_files)
  have 1: "search_code cwd root fs completion q exts cs =
            Inr \<lparr>query = q, totalMatches = sum_list (map matchCount ?S), fileCount = length ?S,
                 results = take 50 ?S\<rparr>"
    by (simp only: search_code_char t l)
  from m mset_hit_files [OF assms]
  have 2: "mset ?S = mset (hit_files cwd root fs (literal_line cs q) ?F)" by simp
  have 3: "sorted_wrt (\<lambda>a b. matchCount b \<le> matchCount a) ?S" by (rule sorted_sortBy)
  from 1 2 3 show ?thesis by blast
qed

lemma sum_positive_drop:
  fixes h :: "'a \<Rightarrow> nat"
  assumes "\<forall>x\<in>set xs. 0 < h x" "n < length xs"
  shows "sum_list (map h (take n xs)) < sum_list (map h xs)"
proof -
  from assms(2) obtain y ys where d: "drop n xs = y # ys"
    by (cases "drop n xs") auto
  then have "y \<in> set xs" by (metis in_set_dropD list.set_intros(1))
  with assms(1) have "0 < h y" by blast
  with d have "0 < sum_list (map h (drop n xs))" by simp
  moreover have "sum_list (map h xs) = sum_list (map h (take n xs)) + sum_list (map h (drop n xs))"
    by (metis append_take_drop_id map_append sum_list_append)
  ultimately show ?thesis by simp
qed

text \<open>
  C3. The handler \<open>search_code\<close> reports a file exactly for the lines that contain the
  query as a literal substring, compared under case folding unless the caller asks for a
  case-sensitive search: every reported file is a scanned file, its hits are its lines
  that contain the query, in order, and it has one; the number of files with hits is the
  number of scanned files with such a line; and when at most 50 files have one, every
  scanned file with such a line is reported. For the query \<open>a.b(c)\<close> the file with the
  line \<open>axbc\<close>, which the query read as a pattern would match, is not reported, the files
  with \<open>xA.B(C)y\<close> and \<open>xa.b(c)y\<close> are; on request of a case-sensitive search only the
  latter is.
\<close>

theorem search_code_literal:
  assumes "mset (completion (searched_files cwd root fs exts)) = mset (searched_files cwd root fs exts)"
  shows "\<exists>rep. search_code cwd root fs completion q exts cs = Inr rep
     \<and> (\<forall>r\<in>set (results rep).
           fr_file r \<in> set (searched_files cwd root fs exts)
           \<and> matches r = file_hits cwd root fs (literal_line cs q) (fr_file r)
           \<and> matches r \<noteq> [])
     \<and> fileCount rep = length (filter (\<lambda>f. file_hits cwd root fs (literal_line cs q) f \<noteq> [])
                                  (searched_files cwd root fs exts))
     \<and> (fileCount rep \<le> 50 \<longrightarrow>
          (\<forall>f\<in>set (searched_files cwd root fs exts).
             file_hits cwd root fs (literal_line cs q) f \<noteq> [] \<longrightarrow>
             (\<exists>r\<in>set (results rep). fr_file r = f)))
     \<and> file_hits cwd root fs (literal_line cs q) f =
         (case readFile cwd fs (path_join [root, f]) of Inl err \<Rightarrow> []
          | Inr content \<Rightarrow>
              map (\<lambda>(k, l). \<lparr>hit_line = Suc k, hit_content = substring 0 200 (trim l)\<rparr>)
                (filter (\<lambda>(k, l). includes_str (map (canonicalize (cs \<noteq> Some True)) l)
                                               (map (canonicalize (cs \<noteq> Some True)) q))
                        (enumerate 0 (split LF content))))
     \<and> search_code ''/'' ''/proj'' sampleLiteral (\<lambda>files. files) ''a.b(c)'' None None =
         Inr \<lparr>query = ''a.b(c)'', totalMatches = 2, fileCount = 2,
              results = [\<lparr>fr_file = ''q.php'', matches = [\<lparr>hit_line = 1, hit_content = ''xA.B(C)y''\<rparr>],
                           matchCount = 1\<rparr>,
                         \<lparr>fr_file = ''r.php'', matches = [\<lparr>hit_line = 2, hit_content = ''xa.b(c)y''\<rparr>],
                           matchCount = 1\<rparr>]\<rparr>
     \<and> search_code ''/'' ''/proj'' sampleLiteral (\<lambda>files. files) ''a.b(c)'' None (Some True) =
         Inr \<lparr>query = ''a.b(c)'', totalMatches = 1, fileCount = 1,
              results = [\<lparr>fr_file = ''r.php'', matches = [\<lparr>hit_line = 2, hit_content = ''xa.b(c)y''\<rparr>],
                           matchCount = 1\<rparr>]\<rparr>
     \<and> regex_parse ''a.b(c)'' = Inr (mk_seq [Lit (CHR ''a''), Dot, Lit (CHR ''b''), Grp 1 (Lit (CHR ''c''))])
     \<and> search_from True (mk_seq [Lit (CHR ''a''), Dot, Lit (CHR ''b''), Grp 1 (Lit (CHR ''c''))]) None ''axbc'' \<noteq> None"
proof -
  let ?F = "searched_files cwd root fs exts"
  let ?P = "literal_line cs q"
  let ?H = "hit_files cwd root fs ?P ?F"
  from search_code_sorted [where completion = completion and q = q and cs = cs, OF assms] obtain S where
    c: "search_code cwd root fs completion q exts cs =
            Inr \<lparr>query = q, totalMatches = sum_list (map matchCount S), fileCount = length S,
                 results = take 50 S\<rparr>"
    and m: "mset S = mset ?H"
    by (elim exE conjE)
  let ?rep = "\<lparr>query = q, totalMatches = sum_list (map matchCount S), fileCount = length S,
                 results = take 50 S\<rparr>"
  from m have s: "set S = set ?H" by (rule mset_eq_setD)
  from m have l: "length S = length ?H" by (rule mset_eq_length)
  have 1: "\<forall>r\<in>set (results ?rep). fr_file r \<in> set ?F
           \<and> matches r = file_hits cwd root fs ?P (fr_file r) \<and> matches r \<noteq> []"
  proof
    fix r assume "r \<in> set (results ?rep)"
    then have "r \<in> set S" by (auto dest: in_set_takeD)
    with s have "r \<in> set ?H" by simp
    from hit_files_counts [OF this]
    show "fr_file r \<in> set ?F \<and> matches r = file_hits cwd root fs ?P (fr_file r) \<and> matches r \<noteq> []"
      by auto
  qed
  have 2: "fileCount ?rep = length (filter (\<lambda>f. file_hits cwd root fs ?P f \<noteq> []) ?F)"
    using l by (simp add: length_hit_files)
  have 3: "fileCount ?rep \<le> 50 \<longrightarrow>
          (\<forall>f\<in>set ?F. file_hits cwd root fs ?P f \<noteq> [] \<longrightarrow> (\<exists>r\<in>set (results ?rep). fr_file r = f))"
  proof (intro impI ballI)
    fix f assume "fileCount ?rep \<le> 50" "f \<in> set ?F" "file_hits cwd root fs ?P f \<noteq> []"
    from hit_files_complete [OF this(2,3)] s \<open>fileCount ?rep \<le> 50\<close>
    show "\<exists>r\<in>set (results ?rep). fr_file r = f" by simp
  qed
  have 4: "file_hits cwd root fs ?P f =
         (case readFile cwd fs (path_join [root, f]) of Inl err \<Rightarrow> []
          | Inr content \<Rightarrow>
              map (\<lambda>(k, l). \<lparr>hit_line = Suc k, hit_content = substring 0 200 (trim l)\<rparr>)
                (filter (\<lambda>(k, l). includes_str (map (canonicalize (cs \<noteq> Some True)) l)
                                               (map (canonicalize (cs \<noteq> Some True)) q))
                        (enumerate 0 (split LF content))))"
    by (simp add: file_hits_def hits_of_def literal_line_def split: sum.splits)
  have 5: "search_code ''/'' ''/proj'' sampleLiteral (\<lambda>files. files) ''a.b(c)'' None None =
         Inr \<lparr>query = ''a.b(c)'', totalMatches = 2, fileCount = 2,
              results = [\<lparr>fr_file = ''q.php'', matches = [\<lparr>hit_line = 1, hit_content = ''xA.B(C)y''\<rparr>],
                           matchCount = 1\<rparr>,
                         \<lparr>fr_file = ''r.php'', matches = [\<lparr>hit_line = 2, hit_content = ''xa.b(c)y''\<rparr>],
                           matchCount = 1\<rparr>]\<rparr>"
    by code_simp
  have 6: "search_code ''/'' ''/proj'' sampleLiteral (\<lambda>files. files) ''a.b(c)'' None (Some True) =
         Inr \<lparr>query = ''a.b(c)'', totalMatches = 1, fileCount = 1,
              results = [\<lparr>fr_file = ''r.php'', matches = [\<lparr>hit_line = 2, hit_content = ''xa.b(c)y''\<rparr>],
                           matchCount = 1\<rparr>]\<rparr>"
    by code_simp
  have 7: "regex_parse ''a.b(c)'' = Inr (mk_seq [Lit (CHR ''a''), Dot, Lit (CHR ''b''), Grp 1 (Lit (CHR ''c''))])"
    by code_simp
  have 8: "search_from True (mk_seq [Lit (CHR ''a''), Dot, Lit (CHR ''b''), Grp 1 (Lit (CHR ''c''))]) None ''axbc'' \<noteq> None"
    by code_simp
  from c 1 2 3 4 5 6 7 8 show ?thesis
    by (intro exI [of _ ?rep] conjI)
qed

theorem search_code_literal_witness:
  "\<exists>rep. search_code ''/'' ''/proj'' sampleLiteral rev ''a.b(c)'' None None = Inr rep
     \<and> fileCount rep = 2
     \<and> (\<exists>r\<in>set (results rep). fr_file r = ''q.php'')
     \<and> file_hits ''/'' ''/proj'' sampleLiteral (literal_line None ''a.b(c)'') ''p.php'' = []"
proof -
  let ?F = "searched_files ''/'' ''/proj'' sampleLiteral None"
  let ?h = "file_hits ''/'' ''/proj'' sampleLiteral (literal_line None ''a.b(c)'')"
  have p: "mset (rev ?F) = mset ?F" by (rule mset_rev)
  from search_code_literal [where completion = rev and q = "''a.b(c)''" and cs = None
      and f = "''p.php''", OF p]
  obtain rep where r: "search_code ''/'' ''/proj'' sampleLiteral rev ''a.b(c)'' None None = Inr rep"
    and n: "fileCount rep = length (filter (\<lambda>f. ?h f \<noteq> []) ?F)"
    and a: "fileCount rep \<le> 50 \<longrightarrow> (\<forall>f\<in>set ?F. ?h f \<noteq> [] \<longrightarrow> (\<exists>r\<in>set (results rep). fr_file r = f))"
    by (elim exE conjE)
  have e1: "length (filter (\<lambda>f. ?h f \<noteq> []) ?F) = 2" by code_simp
  have e2: "''q.php'' \<in> set ?F" by code_simp
  have e3: "?h ''q.php'' \<noteq> []" by code_simp
  have e4: "?h ''p.php'' = []" by code_simp
  from n e1 have 1: "fileCount rep = 2" by (simp only:)
  then have "fileCount rep \<le> 50" by simp
  with a have "\<forall>f\<in>set ?F. ?h f \<noteq> [] \<longrightarrow> (\<exists>r\<in>set (results rep). fr_file r = f)"
    by (rule mp)
  from bspec [OF this e2] e3 have 2: "\<exists>r\<in>set (results rep). fr_file r = ''q.php''"
    by (rule mp)
  from r 1 2 e4 show ?thesis by (intro exI [of _ rep] conjI)
qed

text \<open>
  C4. The report lists the files with hits by descending number of hits and keeps the
  first 50 of them at most: its list followed by the files that are cut off is a list of
  all scanned files with hits, each once, sorted by descending count, so that no file
  that is cut off has more hits than a file that is listed; the total is taken over every
  scanned file, reported or not. This holds in whatever order the reads of the files
  complete. Counts 3, 1, 5 come out as 5, 3, 1.
\<close>

theorem search_ranking:
  assumes "mset (completion (searched_files cwd root fs exts)) = mset (searched_files cwd root fs exts)"
  shows "\<exists>rep rest. search_code cwd root fs completion q exts cs = Inr rep
     \<and> mset (results rep @ rest) =
         mset (hit_files cwd root fs (literal_line cs q) (searched_files cwd root fs exts))
     \<and> sorted_wrt (\<lambda>a b. matchCount b \<le> matchCount a) (results rep @ rest)
     \<and> length (results rep) = min 50 (fileCount rep)
     \<and> fileCount rep = length (results rep @ rest)
     \<and> totalMatches rep = sum_list (map matchCount (results rep @ rest))
     \<and> totalMatches rep =
         sum_list (map (matching_lines cwd root fs cs q) (searched_files cwd root fs exts))
     \<and> map matchCount (sortBy byMatchCount sampleCounts) = [5, 3, 1]"
proof -
  let ?F = "searched_files cwd root fs exts"
  let ?H = "hit_files cwd root fs (literal_line cs q) ?F"
  from search_code_sorted [where completion = completion and q = q and cs = cs, OF assms] obtain S where
    c: "search_code cwd root fs completion q exts cs =
            Inr \<lparr>query = q, totalMatches = sum_list (map matchCount S), fileCount = length S,
                 results = take 50 S\<rparr>"
    and m: "mset S = mset ?H"
    and s: "sorted_wrt (\<lambda>a b. matchCount b \<le> matchCount a) S"
    by (elim exE conjE)
  let ?rep = "\<lparr>query = q, totalMatches = sum_list (map matchCount S), fileCount = length S,
                 results = take 50 S\<rparr>"
  have i: "results ?rep @ drop 50 S = S" by simp
  from m have "sum_list (map matchCount S) = sum_list (map matchCount ?H)"
    by (rule sum_list_map_mset)
  then have t: "totalMatches ?rep = sum_list (map (matching_lines cwd root fs cs q) ?F)"
    by (simp add: sum_hit_files length_file_hits)
  have e: "map matchCount (sortBy byMatchCount sampleCounts) = [5, 3, 1]"
    by (simp add: sampleCounts_def sortBy_def byMatchCount_def)
  have 1: "mset (results ?rep @ drop 50 S) = mset ?H" using m by (simp only: i)
  have 2: "sorted_wrt (\<lambda>a b. matchCount b \<le> matchCount a) (results ?rep @ drop 50 S)"
    using s by (simp only: i)
  have 3: "length (results ?rep) = min 50 (fileCount ?rep)" by simp
  have 4: "fileCount ?rep = length (results ?rep @ drop 50 S)" by (simp only: i) simp
  have 5: "totalMatches ?rep = sum_list (map matchCount (results ?rep @ drop 50 S))"
    by (simp only: i) simp
  from c 1 2 3 4 5 t e show ?thesis
    by (intro exI [of _ ?rep] exI [of _ "drop 50 S"] conjI)
qed

theorem search_ranking_witness:
  "\<exists>rep. search_code ''/'' ''/proj'' sampleSearch rev ''foo'' None None = Inr rep
     \<and> map matchCount (results rep) = [5, 3, 1]
     \<and> totalMatches rep = 9"
proof -
  let ?F = "searched_files ''/'' ''/proj'' sampleSearch None"
  let ?H = "hit_files ''/'' ''/proj'' sampleSearch (literal_line None ''foo'') ?F"
  have p: "mset (rev ?F) = mset ?F" by (rule mset_rev)
  from search_ranking [where completion = rev and q = "''foo''" and cs = None, OF p]
  obtain rep rest where r: "search_code ''/'' ''/proj'' sampleSearch rev ''foo'' None None = Inr rep"
    and m: "mset (results rep @ rest) = mset ?H"
    and s: "sorted_wrt (\<lambda>a b. matchCount b \<le> matchCount a) (results rep @ rest)"
    and l: "length (results rep) = min 50 (fileCount rep)"
    and n: "fileCount rep = length (results rep @ rest)"
    and t: "totalMatches rep = sum_list (map (matching_lines ''/'' ''/proj'' sampleSearch None ''foo'') ?F)"
    by (elim exE conjE)
  have e1: "?H = [\<lparr>fr_file = ''a.php'',
                   matches = [\<lparr>hit_line = 1, hit_content = ''foo foo''\<rparr>, \<lparr>hit_line = 2, hit_content = ''foo''\<rparr>,
                              \<lparr>hit_line = 3, hit_content = ''x foo''\<rparr>],
                   matchCount = 3\<rparr>,
                 \<lparr>fr_file = ''b.php'', matches = [\<lparr>hit_line = 1, hit_content = ''Foo''\<rparr>], matchCount = 1\<rparr>,
                 \<lparr>fr_file = ''c.php'',
                   matches = [\<lparr>hit_line = 1, hit_content = ''foo''\<rparr>, \<lparr>hit_line = 2, hit_content = ''foo''\<rparr>,
                              \<lparr>hit_line = 3, hit_content = ''foofoo''\<rparr>, \<lparr>hit_line = 4, hit_content = ''foo''\<rparr>,
                              \<lparr>hit_line = 5, hit_content = ''foo''\<rparr>],
                   matchCount = 5\<rparr>]"
    by code_simp
  have e2: "sum_list (map (matching_lines ''/'' ''/proj'' sampleSearch None ''foo'') ?F) = 9"
    by code_simp
  from m have "length (results rep @ rest) = length ?H" by (rule mset_eq_length)
  with n l e1 have "length (results rep) = 3" "length rest = 0" by simp_all
  then have rest: "rest = []" by simp
  from m rest have "image_mset matchCount (mset (results rep)) = image_mset matchCount (mset ?H)"
    by simp
  then have mc: "mset (rev (map matchCount (results rep))) = mset [3, 1, 5]"
    by (simp only: e1) simp
  from s rest have "sorted_wrt (\<lambda>a b. b \<le> a) (map matchCount (results rep))"
    by (simp add: sorted_wrt_map)
  then have "sorted (rev (map matchCount (results rep)))"
    by (simp add: sorted_wrt_rev)
  with mc have "sort [3, 1, 5] = rev (map matchCount (results rep))"
    by (rule properties_for_sort)
  then have "rev (map matchCount (results rep)) = [1, 3, 5]"
    by simp
  then have 1: "map matchCount (results rep) = [5, 3, 1]"
    by (simp add: rev_swap)
  from t e2 have 2: "totalMatches rep = 9" by (simp only:)
  from r 1 2 show ?thesis by (intro exI [of _ rep] conjI)
qed

section \<open>The total counts lines\<close>

text \<open>
  C10 (as amended). The total of a search is the number of matching lines over all
  scanned files, a line counting once however often it contains the query. The count of
  a reported file is the number of its matching lines, which is the number of its hits.
  The counts of the reported files add up to the total when at most 50 files have a
  matching line; when more have, 50 files are reported and their counts add up to less
  than the total. This holds in whatever order the reads of the files complete.
\<close>

theorem total_matches_counts_lines:
  assumes "mset (completion (searched_files cwd root fs exts)) = mset (searched_files cwd root fs exts)"
  shows "\<exists>rep. search_code cwd root fs completion q exts cs = Inr rep
     \<and> totalMatches rep =
         sum_list (map (matching_lines cwd root fs cs q) (searched_files cwd root fs exts))
     \<and> (\<forall>r\<in>set (results rep).
           fr_file r \<in> set (searched_files cwd root fs exts)
           \<and> matchCount r = matching_lines cwd root fs cs q (fr_file r)
           \<and> matchCount r = length (matches r)
           \<and> 0 < matchCount r)
     \<and> fileCount rep = length (filter (\<lambda>f. 0 < matching_lines cwd root fs cs q f)
                                  (searched_files cwd root fs exts))
     \<and> length (results rep) = min 50 (fileCount rep)
     \<and> (fileCount rep \<le> 50 \<longrightarrow> sum_list (map matchCount (results rep)) = totalMatches rep)
     \<and> (50 < fileCount rep \<longrightarrow> sum_list (map matchCount (results rep)) < totalMatches rep)
     \<and> matching_lines cwd root fs cs q f =
         (case readFile cwd fs (path_join [root, f]) of Inl err \<Rightarrow> 0
          | Inr content \<Rightarrow>
              length (filter (\<lambda>l. includes_str (map (canonicalize (cs \<noteq> Some True)) l)
                                              (map (canonicalize (cs \<noteq> Some True)) q))
                             (split LF content)))"
proof -
  let ?F = "searched_files cwd root fs exts"
  let ?P = "literal_line cs q"
  let ?H = "hit_files cwd root fs ?P ?F"
  from search_code_sorted [where completion = completion and q = q and cs = cs, OF assms] obtain S where
    c: "search_code cwd root fs completion q exts cs =
            Inr \<lparr>query = q, totalMatches = sum_list (map matchCount S), fileCount = length S,
                 results = take 50 S\<rparr>"
    and m: "mset S = mset ?H"
    by (elim exE conjE)
  let ?rep = "\<lparr>query = q, totalMatches = sum_list (map matchCount S), fileCount = length S,
                 results = take 50 S\<rparr>"
  from m have s: "set S = set ?H" by (rule mset_eq_setD)
  from m have l: "length S = length ?H" by (rule mset_eq_length)
  have pos: "\<forall>r\<in>set S. 0 < matchCount r"
  proof
    fix r assume "r \<in> set S"
    with s have "r \<in> set ?H" by simp
    from hit_files_counts [OF this] show "0 < matchCount r" by (elim conjE)
  qed
  from m have "sum_list (map matchCount S) = sum_list (map matchCount ?H)"
    by (rule sum_list_map_mset)
  then have 1: "totalMatches ?rep = sum_list (map (matching_lines cwd root fs cs q) ?F)"
    by (simp add: sum_hit_files length_file_hits)
  have 2: "\<forall>r\<in>set (results ?rep). fr_file r \<in> set ?F
           \<and> matchCount r = matching_lines cwd root fs cs q (fr_file r)
           \<and> matchCount r = length (matches r) \<and> 0 < matchCount r"
  proof
    fix r assume "r \<in> set (results ?rep)"
    then have "r \<in> set S" by (auto dest: in_set_takeD)
    with s have "r \<in> set ?H" by simp
    from hit_files_counts [OF this]
    show "fr_file r \<in> set ?F \<and> matchCount r = matching_lines cwd root fs cs q (fr_file r)
           \<and> matchCount r = length (matches r) \<and> 0 < matchCount r"
      by (simp add: length_file_hits)
  qed
  have "(file_hits cwd root fs ?P g \<noteq> []) = (0 < matching_lines cwd root fs cs q g)" for g
    using length_file_hits [of cwd root fs cs q g] by (cases "file_hits cwd root fs ?P g") auto
  then have 3: "fileCount ?rep = length (filter (\<lambda>f. 0 < matching_lines cwd root fs cs q f) ?F)"
    using l by (simp add: length_hit_files)
  have 4: "length (results ?rep) = min 50 (fileCount ?rep)" by simp
  have 5: "fileCount ?rep \<le> 50 \<longrightarrow> sum_list (map matchCount (results ?rep)) = totalMatches ?rep"
    by simp
  have 6: "50 < fileCount ?rep \<longrightarrow> sum_list (map matchCount (results ?rep)) < totalMatches ?rep"
    using sum_positive_drop [OF pos, of 50] by simp
  have 7: "matching_lines cwd root fs cs q f =
         (case readFile cwd fs (path_join [root, f]) of Inl err \<Rightarrow> 0
          | Inr content \<Rightarrow>
              length (filter (\<lambda>l. includes_str (map (canonicalize (cs \<noteq> Some True)) l)
                                              (map (canonicalize (cs \<noteq> Some True)) q))
                             (split LF content)))"
  proof -
    have "literal_line cs q = (\<lambda>l. includes_str (map (canonicalize (cs \<noteq> Some True)) l)
                                              (map (canonicalize (cs \<noteq> Some True)) q))"
      by (rule ext) (simp add: literal_line_def)
    then show ?thesis
      by (simp add: matching_lines_def split: sum.splits)
  qed
  from c 1 2 3 4 5 6 7 show ?thesis
    by (intro exI [of _ ?rep] conjI)
qed

theorem total_matches_counts_lines_witness:
  "\<exists>rep. search_code ''/'' ''/proj'' sampleSearch rev ''foo'' None None = Inr rep
     \<and> totalMatches rep = 9
     \<and> fileCount rep = 3
     \<and> sum_list (map matchCount (results rep)) = 9
     \<and> matching_lines ''/'' ''/proj'' sampleSearch None ''foo'' ''a.php'' = 3
     \<and> readFile ''/'' sampleSearch ''/proj/a.php'' = Inr (''foo foo'' @ [LF] @ ''foo'' @ [LF] @ ''x foo'')"
proof -
  let ?F = "searched_files ''/'' ''/proj'' sampleSearch None"
  let ?m = "matching_lines ''/'' ''/proj'' sampleSearch None ''foo''"
  have p: "mset (rev ?F) = mset ?F" by (rule mset_rev)
  from total_matches_counts_lines [where completion = rev and q = "''foo''" and cs = None
      and f = "''a.php''", OF p]
  obtain rep where r: "search_code ''/'' ''/proj'' sampleSearch rev ''foo'' None None = Inr rep"
    and t: "totalMatches rep = sum_list (map ?m ?F)"
    and n: "fileCount rep = length (filter (\<lambda>f. 0 < ?m f) ?F)"
    and a: "fileCount rep \<le> 50 \<longrightarrow> sum_list (map matchCount (results rep)) = totalMatches rep"
    by (elim exE conjE)
  have e1: "sum_list (map ?m ?F) = 9" by code_simp
  have e2: "length (filter (\<lambda>f. 0 < ?m f) ?F) = 3" by code_simp
  have 4: "?m ''a.php'' = 3" by code_simp
  have 5: "readFile ''/'' sampleSearch ''/proj/a.php'' = Inr (''foo foo'' @ [LF] @ ''foo'' @ [LF] @ ''x foo'')"
    by code_simp
  from t e1 have 1: "totalMatches rep = 9" by (simp only:)
  from n e2 have 2: "fileCount rep = 3" by (simp only:)
  then have "fileCount rep \<le> 50" by simp
  with a have "sum_list (map matchCount (results rep)) = totalMatches rep" by (rule mp)
  with 1 have 3: "sum_list (map matchCount (results rep)) = 9" by (simp only:)
  from r 1 2 3 4 5 show ?thesis by (intro exI [of _ rep] conjI)
qed

text \<open>
  C10 as stated fails in its last clause: of 51 files with one matching line each the
  report keeps 50, so the total is 51 and the reported counts add up to 50.
\<close>

theorem truncated_counts_counterexample:
  "\<exists>rep. search_code ''/'' ''/proj'' manyFiles (\<lambda>files. files) ''foo'' None None = Inr rep
     \<and> totalMatches rep = 51
     \<and> fileCount rep = 51
     \<and> length (results rep) = 50
     \<and> sum_list (map matchCount (results rep)) = 50"
proof -
  have "case search_code ''/'' ''/proj'' manyFiles (\<lambda>files. files) ''foo'' None None of
          Inl err \<Rightarrow> False
        | Inr rep \<Rightarrow> totalMatches rep = 51 \<and> fileCount rep = 51 \<and> length (results rep) = 50
            \<and> sum_list (map matchCount (results rep)) = 50"
    by code_simp
  then show ?thesis
    by (cases "search_code ''/'' ''/proj'' manyFiles (\<lambda>files. files) ''foo'' None None") simp_all
qed
section \<open>Matches of the analyzer\<close>

text \<open>
  The equation of \<open>ends\<close> for a starred expression and the one of \<open>search_from\<close> rewrite
  their own right-hand sides; from here on they are applied by hand.
\<close>

declare ends.simps(11) [simp del]

declare search_from.simps [simp del]

lemma in_ends_Seq:
  "x \<in> set (ends ic (Seq a b) st) \<longleftrightarrow> (\<exists>y\<in>set (ends ic a st). x \<in> set (ends ic b y))"
  by (simp only: ends.simps set_concat set_map) blast

lemma in_ends_Alt:
  "x \<in> set (ends ic (Alt a b) st) \<longleftrightarrow> x \<in> set (ends ic a st) \<or> x \<in> set (ends ic b st)"
  by (simp only: ends.simps set_append Un_iff)

lemma in_ends_Opt:
  "x \<in> set (ends ic (Opt a) (p, s, cs)) \<Longrightarrow>
     x = (p, s, cs) \<or> x \<in> set (ends ic a (p, s, clear_caps (groups_of a) cs))"
  by (simp only: ends.simps set_append set_filter) auto

lemma in_ends_Star:
  "x \<in> set (ends ic (Star a) (p, s, cs)) \<Longrightarrow>
     x = (p, s, cs) \<or>
     (\<exists>p' s' cs'. (p', s', cs') \<in> set (ends ic a (p, s, clear_caps (groups_of a) cs))
        \<and> length s' < length s \<and> x \<in> set (ends ic (Star a) (p', s', cs')))"
  by (subst (asm) ends.simps(11)) (auto split: if_splits)

lemma in_ends_Grp:
  "x \<in> set (ends ic (Grp n a) (p, s, cs)) \<Longrightarrow>
     \<exists>p' s' cs'. (p', s', cs') \<in> set (ends ic a (p, s, cs))
        \<and> x = (p', s', (n, take (length s - length s') s) # cs')"
  by (simp only: ends.simps set_map) auto

lemma in_ends_atom:
  "x \<in> set (ends ic (Lit c) (p, s, cs)) \<Longrightarrow> \<exists>d ds. s = d # ds \<and> x = (Some d, ds, cs)"
  "x \<in> set (ends ic Dot (p, s, cs)) \<Longrightarrow> \<exists>d ds. s = d # ds \<and> x = (Some d, ds, cs)"
  "x \<in> set (ends ic (Cls neg its) (p, s, cs)) \<Longrightarrow> \<exists>d ds. s = d # ds \<and> x = (Some d, ds, cs)"
  by (cases s; simp only: ends.simps list.case; simp split: if_splits)+

lemma in_ends_assert:
  "x \<in> set (ends ic Eps st) \<Longrightarrow> x = st"
  "x \<in> set (ends ic Bol (p, s, cs)) \<Longrightarrow> x = (p, s, cs)"
  "x \<in> set (ends ic Eol (p, s, cs)) \<Longrightarrow> x = (p, s, cs)"
  "x \<in> set (ends ic (WordB pos) (p, s, cs)) \<Longrightarrow> x = (p, s, cs)"
  by (simp_all only: ends.simps split: if_splits, simp_all)

lemma ends_length:
  "x \<in> set (ends ic r st) \<Longrightarrow> length (fst (snd x)) \<le> length (fst (snd st))"
proof (induction ic r st arbitrary: x rule: ends.induct)
  case (8 ic a b st)
  then obtain y where y: "y \<in> set (ends ic a st)" and x: "x \<in> set (ends ic b y)"
    by (auto simp only: in_ends_Seq)
  from "8.IH"(1) [OF y] "8.IH"(2) [OF y x] show ?case by simp
next
  case (9 ic a b st)
  from "9.prems" have "x \<in> set (ends ic a st) \<or> x \<in> set (ends ic b st)"
    by (simp only: in_ends_Alt)
  with "9.IH" show ?case by blast
next
  case (10 ic a p s cs)
  from in_ends_Opt [OF "10.prems"] show ?case
  proof
    assume "x = (p, s, cs)"
    then show ?thesis by simp
  next
    assume "x \<in> set (ends ic a (p, s, clear_caps (groups_of a) cs))"
    from "10.IH" [OF this] show ?thesis by simp
  qed
next
  case (11 ic a p s cs)
  from in_ends_Star [OF "11.prems"] show ?case
  proof
    assume "x = (p, s, cs)"
    then show ?thesis by simp
  next
    assume "\<exists>p' s' cs'. (p', s', cs') \<in> set (ends ic a (p, s, clear_caps (groups_of a) cs))
      \<and> length s' < length s \<and> x \<in> set (ends ic (Star a) (p', s', cs'))"
    then obtain p' s' cs' where m: "(p', s', cs') \<in> set (ends ic a (p, s, clear_caps (groups_of a) cs))"
      and l: "length s' < length s" and x: "x \<in> set (ends ic (Star a) (p', s', cs'))"
      by blast
    from "11.IH"(2) [OF m _ _ l x] l show ?thesis by simp
  qed
next
  case (12 ic n a p s cs)
  from in_ends_Grp [OF "12.prems"] obtain p' s' cs' where m: "(p', s', cs') \<in> set (ends ic a (p, s, cs))"
    and x: "x = (p', s', (n, take (length s - length s') s) # cs')"
    by blast
  from "12.IH" [OF m] x show ?case by simp
next
  case (2 ic c p s cs)
  from in_ends_atom(1) [OF "2.prems"] show ?case by auto
next
  case (3 ic p s cs)
  from in_ends_atom(2) [OF "3.prems"] show ?case by auto
next
  case (4 ic neg its p s cs)
  from in_ends_atom(3) [OF "4.prems"] show ?case by auto
next
  case (1 ic st)
  from in_ends_assert(1) [OF "1.prems"] show ?case by simp
next
  case (5 ic p s cs)
  from in_ends_assert(2) [OF "5.prems"] show ?case by simp
next
  case (6 ic p s cs)
  from in_ends_assert(3) [OF "6.prems"] show ?case by simp
next
  case (7 ic pos p s cs)
  from in_ends_assert(4) [OF "7.prems"] show ?case by simp
qed

lemma ends_mk_seq_last:
  "x \<in> set (ends ic (mk_seq (as @ [b])) st) \<Longrightarrow> \<exists>y. x \<in> set (ends ic b y)"
proof (induction as arbitrary: st)
  case Nil
  then show ?case by (intro exI [of _ st]) simp
next
  case (Cons a as)
  from Cons.prems have "x \<in> set (concat (map (ends ic (mk_seq (as @ [b]))) (ends ic a st)))"
    by (simp only: append_Cons ends_mk_seq_Cons)
  then obtain y where "x \<in> set (ends ic (mk_seq (as @ [b])) y)"
    by auto
  from Cons.IH [OF this] show ?case .
qed

lemma group_of_class_captured:
  assumes "x \<in> set (ends ic (Grp k (Plus (Cls neg its))) y)"
  shows "\<exists>v. map_of (snd (snd x)) k = Some v \<and> v \<noteq> []"
proof -
  obtain p s cs where y: "y = (p, s, cs)" by (cases y) auto
  from in_ends_Grp [OF assms [unfolded y]] obtain p' s' cs' where
    m: "(p', s', cs') \<in> set (ends ic (Plus (Cls neg its)) (p, s, cs))"
    and x: "x = (p', s', (k, take (length s - length s') s) # cs')"
    by blast
  from m obtain z where z: "z \<in> set (ends ic (Cls neg its) (p, s, cs))"
    and e: "(p', s', cs') \<in> set (ends ic (Star (Cls neg its)) z)"
    unfolding Plus_def in_ends_Seq by blast
  from in_ends_atom(3) [OF z] obtain d ds where s: "s = d # ds" and zz: "z = (Some d, ds, cs)"
    by blast
  from ends_length [OF e] zz have "length s' \<le> length ds" by simp
  with s have "take (length s - length s') s \<noteq> []" by auto
  with x show ?thesis by simp
qed

lemma last_group_captured:
  "x \<in> set (ends ic (mk_seq (as @ [Grp k (Plus (Cls neg its))])) st) \<Longrightarrow>
     \<exists>v. map_of (snd (snd x)) k = Some v \<and> v \<noteq> []"
  using ends_mk_seq_last group_of_class_captured by blast

lemma search_from_Some:
  "search_from ic r p s = Some x \<Longrightarrow> \<exists>p' s'. x \<in> set (ends ic r (p', s', []))"
proof (induction s arbitrary: p)
  case Nil
  then have "x \<in> set (ends ic r (p, [], []))"
    by (subst (asm) search_from.simps) (auto split: list.splits)
  then show ?case by blast
next
  case (Cons d ds)
  from Cons.prems have "x \<in> set (ends ic r (p, d # ds, [])) \<or> search_from ic r (Some d) ds = Some x"
    by (subst (asm) search_from.simps) (auto split: list.splits)
  with Cons.IH show ?case by blast
qed

lemma str_match_Some:
  "str_match l r = Some m \<Longrightarrow> \<exists>p s x. x \<in> set (ends False r (p, s, [])) \<and> m = map_of (snd (snd x))"
proof -
  assume a: "str_match l r = Some m"
  then obtain x where x: "search_from False r None l = Some x" and m: "m = map_of (snd (snd x))"
    by (auto simp: str_match_def regexp_exec_def literal_def Let_def split: option.splits)
  from search_from_Some [OF x] m show ?thesis by blast
qed

lemma class_name_captured:
  "str_match l classRegex = Some m \<Longrightarrow> truthy (m 4)"
proof -
  assume "str_match l classRegex = Some m"
  from str_match_Some [OF this] obtain p s x where
    x: "x \<in> set (ends False classRegex (p, s, []))" and m: "m = map_of (snd (snd x))"
    by blast
  have c: "classRegex = mk_seq ([Bol, Star ws,
     Opt (Grp 1 (mk_seq (map Lit ''abstract'' @ [Plus ws]))),
     Opt (Grp 2 (mk_seq (map Lit ''final'' @ [Plus ws]))),
     Grp 3 (mk_alt [mk_seq (map Lit ''class''), mk_seq (map Lit ''interface''),
                    mk_seq (map Lit ''trait''), mk_seq (map Lit ''enum'')]),
     Plus ws] @ [Grp 4 (Plus (Cls False [CWord]))])"
    by (simp only: classRegex_def word_def append.simps)
  from last_group_captured [OF x [unfolded c]] m show ?thesis
    by (auto simp: truthy_def)
qed

section \<open>One line of the analyzer\<close>

lemma analyze_line_namespace:
  "namespace (fst (analyze_line (a, ins) l n)) =
     (case str_match l nsRegex of None \<Rightarrow> namespace a | Some m \<Rightarrow> Some (trim (cap m 1)))"
  by (simp add: analyze_line_def rule_namespace_def rule_use_def rule_class_def rule_const_def
      rule_prop_def rule_method_def Let_def split: option.splits prod.splits)

lemma analyze_line_className:
  "className (fst (analyze_line (a, ins) l n)) =
     (case str_match l classRegex of None \<Rightarrow> className a
      | Some m \<Rightarrow> if truthy (className a) then className a else m 4)"
  by (simp add: analyze_line_def rule_namespace_def rule_use_def rule_class_def rule_const_def
      rule_prop_def rule_method_def Let_def split: option.splits prod.splits)

lemma analyze_line_classType:
  "classType (fst (analyze_line (a, ins) l n)) =
     (case str_match l classRegex of None \<Rightarrow> classType a
      | Some m \<Rightarrow> if truthy (className a) then classType a else m 3)"
  by (simp add: analyze_line_def rule_namespace_def rule_use_def rule_class_def rule_const_def
      rule_prop_def rule_method_def Let_def split: option.splits prod.splits)

lemma analyze_line_inside:
  "snd (analyze_line (a, ins) l n) =
     (case str_match l classRegex of None \<Rightarrow> ins
      | Some m \<Rightarrow> if truthy (className a) then ins else True)"
  by (simp add: analyze_line_def rule_namespace_def rule_use_def rule_class_def rule_const_def
      rule_prop_def rule_method_def Let_def split: option.splits prod.splits)

lemma analyze_line_traits:
  "traits (fst (analyze_line (a, ins) l n)) =
     (case str_match l useRegex of None \<Rightarrow> traits a
      | Some m \<Rightarrow> if ins \<and> \<not> includes_str (cap m 1) [BS] then traits a @ [trim (cap m 1)] else traits a)"
  by (simp add: analyze_line_def rule_namespace_def rule_use_def rule_class_def rule_const_def
      rule_prop_def rule_method_def Let_def split: option.splits prod.splits)

lemma analyze_line_imports:
  "imports_list (fst (analyze_line (a, ins) l n)) =
     (case str_match l useRegex of None \<Rightarrow> imports_list a
      | Some m \<Rightarrow> if \<not> ins then imports_list a @ [\<lparr>statement = trim (cap m 1), import_line = n\<rparr>]
                  else imports_list a)"
  by (simp add: analyze_line_def rule_namespace_def rule_use_def rule_class_def rule_const_def
      rule_prop_def rule_method_def Let_def split: option.splits prod.splits)

lemma analyze_line_full:
  "fullClassName (fst (analyze_line (a, ins) l n)) = fullClassName a"
  by (simp add: analyze_line_def rule_namespace_def rule_use_def rule_class_def rule_const_def
      rule_prop_def rule_method_def Let_def split: option.splits prod.splits)

lemma analyze_lines_snoc:
  "analyze_lines st i (ls @ [l]) = analyze_line (analyze_lines st i ls) l (i + length ls + 1)"
  by (induction ls arbitrary: st i) simp_all

section \<open>The pass of the analyzer\<close>

lemma matches_of_snoc:
  "matches_of r (ls @ [l]) = matches_of r ls @ (case str_match l r of None \<Rightarrow> [] | Some m \<Rightarrow> [m])"
  by (simp add: matches_of_def map_filter_def split: option.splits)

lemma headerSeen_snoc:
  "headerSeen (ls @ [l]) \<longleftrightarrow> headerSeen ls \<or> str_match l classRegex \<noteq> None"
  by (simp add: headerSeen_def matches_of_snoc split: option.splits)

lemma use_lines_snoc:
  "use_lines (ls @ [l]) =
     use_lines ls @ (case str_match l useRegex of None \<Rightarrow> [] | Some m \<Rightarrow> [(length ls, m)])"
proof -
  have "concat (map (\<lambda>i. case str_match ((ls @ [l]) ! i) useRegex of None \<Rightarrow> [] | Some m \<Rightarrow> [(i, m)])
                    [0..<length ls])
      = concat (map (\<lambda>i. case str_match (ls ! i) useRegex of None \<Rightarrow> [] | Some m \<Rightarrow> [(i, m)])
                    [0..<length ls])"
    by (rule arg_cong [where f = concat], rule map_cong) (simp_all add: nth_append)
  then show ?thesis by (simp add: use_lines_def)
qed

lemma use_lines_bound: "(i, m) \<in> set (use_lines ls) \<Longrightarrow> i < length ls"
  by (auto simp: use_lines_def split: option.splits)

lemma traits_of_snoc:
  "traits_of (ls @ [l]) =
     traits_of ls @ (case str_match l useRegex of None \<Rightarrow> []
        | Some m \<Rightarrow> if headerSeen ls \<and> \<not> includes_str (cap m 1) [BS] then [trim (cap m 1)] else [])"
proof -
  have "filter (\<lambda>(i, m). headerSeen (take i (ls @ [l])) \<and> \<not> includes_str (cap m 1) [BS]) (use_lines ls)
      = filter (\<lambda>(i, m). headerSeen (take i ls) \<and> \<not> includes_str (cap m 1) [BS]) (use_lines ls)"
    by (rule filter_cong) (auto dest: use_lines_bound)
  then show ?thesis
    by (simp add: traits_of_def use_lines_snoc split: option.splits)
qed

lemma imports_of_snoc:
  "imports_of (ls @ [l]) =
     imports_of ls @ (case str_match l useRegex of None \<Rightarrow> []
        | Some m \<Rightarrow> if \<not> headerSeen ls then [\<lparr>statement = trim (cap m 1), import_line = Suc (length ls)\<rparr>]
                    else [])"
proof -
  have "filter (\<lambda>(i, m). \<not> headerSeen (take i (ls @ [l]))) (use_lines ls)
      = filter (\<lambda>(i, m). \<not> headerSeen (take i ls)) (use_lines ls)"
    by (rule filter_cong) (auto dest: use_lines_bound)
  then show ?thesis
    by (simp add: imports_of_def use_lines_snoc split: option.splits)
qed

lemma matches_of_truthy: "m \<in> set (matches_of classRegex ls) \<Longrightarrow> truthy (m 4)"
  by (auto simp: matches_of_def map_filter_def dest: class_name_captured)

lemma analyze_lines_invariant:
  "analyze_lines (initial path, False) 0 ls = (a, ins) \<Longrightarrow>
     ins = headerSeen ls
     \<and> className a = (case matches_of classRegex ls of [] \<Rightarrow> None | m # ms \<Rightarrow> m 4)
     \<and> classType a = (case matches_of classRegex ls of [] \<Rightarrow> None | m # ms \<Rightarrow> m 3)
     \<and> namespace a = (case rev (matches_of nsRegex ls) of [] \<Rightarrow> None | m # ms \<Rightarrow> Some (trim (cap m 1)))
     \<and> traits a = traits_of ls
     \<and> imports_list a = imports_of ls
     \<and> fullClassName a = None"
proof (induction ls arbitrary: a ins rule: rev_induct)
  case Nil
  then show ?case
    by (auto simp: initial_def headerSeen_def matches_of_def map_filter_def traits_of_def imports_of_def
        use_lines_def)
next
  case (snoc l ls)
  obtain a0 ins0 where s0: "analyze_lines (initial path, False) 0 ls = (a0, ins0)"
    by (cases "analyze_lines (initial path, False) 0 ls") auto
  note I = snoc.IH [OF s0]
  from snoc.prems s0 have st: "analyze_line (a0, ins0) l (Suc (length ls)) = (a, ins)"
    by (simp add: analyze_lines_snoc)
  have a: "a = fst (analyze_line (a0, ins0) l (Suc (length ls)))"
    and i: "ins = snd (analyze_line (a0, ins0) l (Suc (length ls)))"
    using st by simp_all
  have t: "truthy (className a0) \<longleftrightarrow> headerSeen ls"
  proof (cases "matches_of classRegex ls")
    case Nil
    with I show ?thesis by (simp add: headerSeen_def truthy_def)
  next
    case (Cons m ms)
    then have "truthy (m 4)" using matches_of_truthy [of m ls] by simp
    with I Cons show ?thesis by (simp add: headerSeen_def)
  qed
  have 1: "ins = headerSeen (ls @ [l])"
    unfolding i analyze_line_inside headerSeen_snoc using I t by (simp split: option.splits)
  have 2: "className a = (case matches_of classRegex (ls @ [l]) of [] \<Rightarrow> None | m # ms \<Rightarrow> m 4)"
    unfolding a analyze_line_className matches_of_snoc using I t
    by (auto simp: headerSeen_def split: option.splits list.splits)
  have 3: "classType a = (case matches_of classRegex (ls @ [l]) of [] \<Rightarrow> None | m # ms \<Rightarrow> m 3)"
    unfolding a analyze_line_classType matches_of_snoc using I t
    by (auto simp: headerSeen_def split: option.splits list.splits)
  have 4: "namespace a = (case rev (matches_of nsRegex (ls @ [l])) of [] \<Rightarrow> None
                          | m # ms \<Rightarrow> Some (trim (cap m 1)))"
    unfolding a analyze_line_namespace matches_of_snoc using I
    by (simp split: option.splits)
  have 5: "traits a = traits_of (ls @ [l])"
    unfolding a analyze_line_traits traits_of_snoc using I
    by (simp split: option.splits)
  have 6: "imports_list a = imports_of (ls @ [l])"
    unfolding a analyze_line_imports imports_of_snoc using I
    by (simp split: option.splits)
  have 7: "fullClassName a = None"
    unfolding a analyze_line_full using I by simp
  from 1 2 3 4 5 6 7 show ?case by (intro conjI)
qed

lemma finish_fields:
  "namespace (finish a) = namespace a" "className (finish a) = className a"
  "classType (finish a) = classType a" "traits (finish a) = traits a"
  "imports_list (finish a) = imports_list a"
  by (simp_all add: finish_def)

lemma analyze_text_fields:
  "className (analyze_text path text) =
     (case matches_of classRegex (split LF text) of [] \<Rightarrow> None | m # ms \<Rightarrow> m 4)"
  "classType (analyze_text path text) =
     (case matches_of classRegex (split LF text) of [] \<Rightarrow> None | m # ms \<Rightarrow> m 3)"
  "namespace (analyze_text path text) =
     (case rev (matches_of nsRegex (split LF text)) of [] \<Rightarrow> None | m # ms \<Rightarrow> Some (trim (cap m 1)))"
  "traits (analyze_text path text) = traits_of (split LF text)"
  "imports_list (analyze_text path text) = imports_of (split LF text)"
  "fullClassName (fst (analyze_lines (initial path, False) 0 (split LF text))) = None"
  using analyze_lines_invariant [of path "split LF text"
      "fst (analyze_lines (initial path, False) 0 (split LF text))"
      "snd (analyze_lines (initial path, False) 0 (split LF text))"]
  by (simp_all add: analyze_text_def finish_fields)

text \<open>
  C5. The claim holds of the class and fails of the namespace. The class rule is guarded
  by \<open>!analysis.className\<close>, so the first class header wins; the namespace rule assigns on
  every line that matches, so a later namespace declaration overwrites an earlier one. In
  a text that declares class \<open>C\<close> in namespace \<open>A\<close> and then class \<open>D\<close> in namespace \<open>B\<close>, the
  analysis pairs the first class with the last namespace and derives the qualified name
  of a class \<open>C\<close> in namespace \<open>B\<close>, which the text does not declare.
\<close>

theorem namespace_overwritten:
  "split LF twoNamespaces = [''namespace A;'', ''class C {}'', ''namespace B;'', ''class D {}'']
   \<and> className (analyze_text ''f.php'' twoNamespaces) = Some ''C''
   \<and> classType (analyze_text ''f.php'' twoNamespaces) = Some ''class''
   \<and> namespace (analyze_text ''f.php'' twoNamespaces) = Some ''B''
   \<and> fullClassName (analyze_text ''f.php'' twoNamespaces) = Some (''B'' @ [BS] @ ''C'')
   \<and> (case matches_of nsRegex (split LF twoNamespaces) of [] \<Rightarrow> None
        | m # ms \<Rightarrow> Some (trim (cap m 1))) = Some ''A''"
  by code_simp

theorem namespace_overwritten_witness:
  "namespace (analyze_text ''f.php'' twoNamespaces) = Some ''B''
   \<and> className (analyze_text ''f.php'' twoNamespaces) = Some ''C''
   \<and> fullClassName (analyze_text ''f.php'' twoNamespaces) = Some (''B'' @ [BS] @ ''C'')"
proof -
  note T = namespace_overwritten
  from T have 1: "namespace (analyze_text ''f.php'' twoNamespaces) = Some ''B''" by (elim conjE)
  from T have 2: "className (analyze_text ''f.php'' twoNamespaces) = Some ''C''" by (elim conjE)
  from T have 3: "fullClassName (analyze_text ''f.php'' twoNamespaces) = Some (''B'' @ [BS] @ ''C'')"
    by (elim conjE)
  from 1 2 3 show ?thesis by (intro conjI)
qed

text \<open>
  C6 (as amended). A line of the import shape is a trait use exactly when a line before
  it has a class header and the captured name holds no backslash; it is an import, with
  its line number, exactly when no line before it has a class header. After a class
  header a captured name with a backslash is recorded in neither list.
\<close>

theorem use_line_classification:
  "traits (analyze_text path text) = traits_of (split LF text)
   \<and> imports_list (analyze_text path text) = imports_of (split LF text)"
  by (intro conjI analyze_text_fields)

theorem use_line_classification_witness:
  "traits (analyze_text ''f.php'' mixedUses) = [''T'']
   \<and> imports_list (analyze_text ''f.php'' mixedUses) =
       [\<lparr>statement = ''A'' @ [BS] @ ''B'', import_line = 1\<rparr>]"
proof -
  have 1: "traits_of (split LF mixedUses) = [''T'']"
    by code_simp
  have 2: "imports_of (split LF mixedUses) = [\<lparr>statement = ''A'' @ [BS] @ ''B'', import_line = 1\<rparr>]"
    by code_simp
  from use_line_classification [of "''f.php''" mixedUses] 1 2 show ?thesis
    by (simp only:)
qed

text \<open>
  C6 as stated fails: a qualified name used inside a class is not recorded as an import.
\<close>

theorem qualified_use_counterexample:
  "str_match (''  use App'' @ [BS] @ ''Concerns'' @ [BS] @ ''Sluggable;'') useRegex \<noteq> None
   \<and> imports_list (analyze_text ''f.php'' qualifiedTraitUse) = []
   \<and> traits (analyze_text ''f.php'' qualifiedTraitUse) = []"
  by code_simp

text \<open>
  C7. The analysis of the namespace of the models of \<open>App\<close> followed by the header of class
  \<open>User\<close> reports the namespace, the class name and kind, the parent, the one interface
  and the qualified name; the qualified name is the namespace, a backslash and the class
  name whenever both are set and not empty, and is absent otherwise.
\<close>

theorem analysis_scenario:
  "namespace (analyze_text ''User.php'' scenarioText) = Some (''App'' @ [BS] @ ''Models'')
   \<and> className (analyze_text ''User.php'' scenarioText) = Some ''User''
   \<and> classType (analyze_text ''User.php'' scenarioText) = Some ''class''
   \<and> extends (analyze_text ''User.php'' scenarioText) = Some ''Model''
   \<and> implements (analyze_text ''User.php'' scenarioText) = [''Authenticatable'']
   \<and> fullClassName (analyze_text ''User.php'' scenarioText)
       = Some (''App'' @ [BS] @ ''Models'' @ [BS] @ ''User'')
   \<and> fullClassName (analyze_text path text) =
       (if truthy (namespace (analyze_text path text)) \<and> truthy (className (analyze_text path text))
        then Some (the (namespace (analyze_text path text)) @ [BS] @ the (className (analyze_text path text)))
        else None)"
proof -
  have 1: "namespace (analyze_text ''User.php'' scenarioText) = Some (''App'' @ [BS] @ ''Models'')"
    by code_simp
  have 2: "className (analyze_text ''User.php'' scenarioText) = Some ''User''"
    by code_simp
  have 3: "classType (analyze_text ''User.php'' scenarioText) = Some ''class''"
    by code_simp
  have 4: "extends (analyze_text ''User.php'' scenarioText) = Some ''Model''"
    by code_simp
  have 5: "implements (analyze_text ''User.php'' scenarioText) = [''Authenticatable'']"
    by code_simp
  have 6: "fullClassName (analyze_text ''User.php'' scenarioText)
       = Some (''App'' @ [BS] @ ''Models'' @ [BS] @ ''User'')"
    by code_simp
  have 7: "fullClassName (analyze_text path text) =
       (if truthy (namespace (analyze_text path text)) \<and> truthy (className (analyze_text path text))
        then Some (the (namespace (analyze_text path text)) @ [BS] @ the (className (analyze_text path text)))
        else None)"
    using analyze_text_fields(6)
    by (simp add: analyze_text_def finish_def)
  from 1 2 3 4 5 6 7 show ?thesis by (intro conjI)
qed

section \<open>The usage finder\<close>














section \<open>Exclusion in the walker, the listing and the tree\<close>

lemma walk_not_excluded:
  "p \<in> set (walk cwd root exts cur nd) \<Longrightarrow> \<not> shouldExclude p"
proof (induction cwd root exts cur nd arbitrary: p rule: walk.induct)
  case (1 cwd root exts cur n entries)
  from "1.prems" obtain entry where e: "entry \<in> set entries"
    and p: "p \<in> set (let fullPath = path_join [cur, entry_name entry];
            relativePath = path_relative cwd root fullPath
        in if startsWith (entry_name entry) ''.'' \<or> shouldExclude relativePath then []
           else if isDirectory entry then walk cwd root exts fullPath entry
           else if list_ex (\<lambda>ext. endsWith (entry_name entry) ext) exts then [relativePath]
           else [])"
    by auto
  let ?full = "path_join [cur, entry_name entry]"
  let ?rel = "path_relative cwd root ?full"
  show ?case
  proof (cases "startsWith (entry_name entry) ''.'' \<or> shouldExclude ?rel")
    case True
    with p show ?thesis by (simp add: Let_def)
  next
    case False
    show ?thesis
    proof (cases "isDirectory entry")
      case True
      with False p have "p \<in> set (walk cwd root exts ?full entry)" by (simp add: Let_def)
      from "1.IH" [OF e refl refl False True this] show ?thesis .
    next
      case nd: False
      with False p have "p = ?rel" by (simp add: Let_def split: if_splits)
      with False show ?thesis by simp
    qed
  qed
qed simp_all

lemma getFilesRecursively_not_excluded:
  "list_all (\<lambda>p. \<not> shouldExclude p) (getFilesRecursively cwd root fs dir exts)"
  by (auto simp: getFilesRecursively_def list_all_iff split: option.splits dest: walk_not_excluded)

text \<open>
  C2. The claim holds of the recursive collection and fails of the listing and of the
  tree. \<open>getFilesRecursively\<close> tests the path of an entry relative to the project root with
  \<open>shouldExclude\<close>, by containment, and returns no path that contains an entry of
  \<open>EXCLUDE_DIRS\<close>. The listing and the tree test the name of an entry with
  \<open>EXCLUDE_DIRS.includes\<close>, by equality, and a name holds no slash: the entries
  \<open>storage/framework\<close>, \<open>storage/logs\<close> and \<open>bootstrap/cache\<close> of \<open>EXCLUDE_DIRS\<close> exclude
  nothing there. In a project with the directory \<open>storage/framework\<close>, the collection
  skips the directory, and the listing and the tree of \<open>storage\<close> show it.
\<close>

theorem listing_keeps_excluded_path:
  "getFilesRecursively ''/'' ''/proj'' sampleStorage ''/proj'' [''.php''] = [''storage/app.php'']
   \<and> shouldExclude ''storage/framework''
   \<and> path_relative ''/'' ''/proj'' (path_join [''/proj/storage'', ''framework'']) = ''storage/framework''
   \<and> list_files (\<lambda>a b. 0) ''/'' ''/proj'' sampleStorage (Some ''storage'') False None =
        Inr (Items ''storage''
          [\<lparr>item_name = ''framework'', item_type = ''directory'', item_size = None\<rparr>,
           \<lparr>item_name = ''app.php'', item_type = ''file'', item_size = Some ''5 B''\<rparr>] 2)
   \<and> buildTree (\<lambda>a b. 0) ''/'' sampleStorage ''/proj/storage'' [] 0 1 =
        connector_mid @ ''framework/'' @ [LF] @ connector_last @ ''app.php'' @ [LF]"
proof -
  have 1: "getFilesRecursively ''/'' ''/proj'' sampleStorage ''/proj'' [''.php''] = [''storage/app.php'']"
    by code_simp
  have 2: "shouldExclude ''storage/framework''"
    by code_simp
  have 3: "path_relative ''/'' ''/proj'' (path_join [''/proj/storage'', ''framework'']) = ''storage/framework''"
    by code_simp
  have 4: "list_files (\<lambda>a b. 0) ''/'' ''/proj'' sampleStorage (Some ''storage'') False None =
        Inr (Items ''storage''
          [\<lparr>item_name = ''framework'', item_type = ''directory'', item_size = None\<rparr>,
           \<lparr>item_name = ''app.php'', item_type = ''file'', item_size = Some ''5 B''\<rparr>] 2)"
    by code_simp
  have 5: "buildTree (\<lambda>a b. 0) ''/'' sampleStorage ''/proj/storage'' [] 0 1 =
        connector_mid @ ''framework/'' @ [LF] @ connector_last @ ''app.php'' @ [LF]"
    by code_simp
  from 1 2 3 4 5 show ?thesis
    by (intro conjI)
qed

theorem listing_keeps_excluded_path_witness:
  "\<exists>items n. list_files (\<lambda>a b. 0) ''/'' ''/proj'' sampleStorage (Some ''storage'') False None =
        Inr (Items ''storage'' items n)
     \<and> \<lparr>item_name = ''framework'', item_type = ''directory'', item_size = None\<rparr> \<in> set items
     \<and> shouldExclude ''storage/framework''
     \<and> getFilesRecursively ''/'' ''/proj'' sampleStorage ''/proj'' [''.php''] = [''storage/app.php'']"
proof -
  note T = listing_keeps_excluded_path
  from T have 1: "list_files (\<lambda>a b. 0) ''/'' ''/proj'' sampleStorage (Some ''storage'') False None =
        Inr (Items ''storage''
          [\<lparr>item_name = ''framework'', item_type = ''directory'', item_size = None\<rparr>,
           \<lparr>item_name = ''app.php'', item_type = ''file'', item_size = Some ''5 B''\<rparr>] 2)"
    by (elim conjE)
  from T have 2: "shouldExclude ''storage/framework''" by (elim conjE)
  from T have 3: "getFilesRecursively ''/'' ''/proj'' sampleStorage ''/proj'' [''.php''] = [''storage/app.php'']"
    by (rule conjunct1)
  have 4: "\<lparr>item_name = ''framework'', item_type = ''directory'', item_size = None\<rparr>
      \<in> set [\<lparr>item_name = ''framework'', item_type = ''directory'', item_size = None\<rparr>,
           \<lparr>item_name = ''app.php'', item_type = ''file'', item_size = Some ''5 B''\<rparr>]"
    by (rule list.set_intros(1))
  from 1 4 2 3 show ?thesis
    by (intro exI [of _ "[\<lparr>item_name = ''framework'', item_type = ''directory'', item_size = None\<rparr>,
           \<lparr>item_name = ''app.php'', item_type = ''file'', item_size = Some ''5 B''\<rparr>]"] exI [of _ 2] conjI)
qed
end
